theory Spec2Isabelle
  imports Main "HOL-Library.Sublist"
begin

section \<open>JavaScript values\<close>

text \<open>
  The repository holds two Node.js programs with the same pipeline: the render server
  (the file with \<^verbatim>\<open>/webhook/process\<close> and \<^verbatim>\<open>/process/pending\<close>) and the
  automation processor (\<^verbatim>\<open>server.js\<close>, with \<^verbatim>\<open>/process-webhook\<close>).

  Webhook payloads are arbitrary JSON, and the code guards against their shape with
  truthiness tests, optional chaining and \<^verbatim>\<open>Array.isArray\<close>, so payloads are values
  of a JSON datatype. \<open>JUndefined\<close> is what reading an absent property gives; \<open>JOid\<close>
  and \<open>JDate\<close> are the ObjectId and Date objects the code puts into log payloads.
  Numbers are integers here (timestamps); an object is an association list, read at
  the first binding of a key.
\<close>

datatype json =
    JUndefined
  | JNull
  | JBool bool
  | JNum int
  | JStr string
  | JArr "json list"
  | JObj "(string \<times> json) list"
  | JOid nat
  | JDate json

text \<open>JavaScript truthiness: what \<^verbatim>\<open>if (v)\<close>, \<^verbatim>\<open>!v\<close>, \<^verbatim>\<open>a && b\<close> and \<^verbatim>\<open>a || b\<close> test.\<close>

fun truthy :: "json \<Rightarrow> bool" where
  "truthy JUndefined = False"
| "truthy JNull = False"
| "truthy (JBool b) = b"
| "truthy (JNum n) = (n \<noteq> 0)"
| "truthy (JStr s) = (s \<noteq> [])"
| "truthy (JArr xs) = True"
| "truthy (JObj kvs) = True"
| "truthy (JOid i) = True"
| "truthy (JDate d) = True"

text \<open>Reading a property of \<^verbatim>\<open>undefined\<close> or \<^verbatim>\<open>null\<close> throws a TypeError.\<close>

fun nullish :: "json \<Rightarrow> bool" where
  "nullish JUndefined = True"
| "nullish JNull = True"
| "nullish v = False"

text \<open>
  \<open>get v k\<close> is \<^verbatim>\<open>v.k\<close> for a value \<open>v\<close> that is not nullish (the callers test
  \<open>nullish\<close> first and take the throwing branch). None of the property names the code
  reads is a built-in property of a string, number, boolean or array, so those give
  \<^verbatim>\<open>undefined\<close>.
\<close>

fun get :: "json \<Rightarrow> string \<Rightarrow> json" where
  "get (JObj kvs) k = (case map_of kvs k of Some x \<Rightarrow> x | None \<Rightarrow> JUndefined)"
| "get v k = JUndefined"

text \<open>\<^verbatim>\<open>v?.k\<close>\<close>

definition optGet :: "json \<Rightarrow> string \<Rightarrow> json" where
  "optGet v k = (if nullish v then JUndefined else get v k)"

text \<open>\<^verbatim>\<open>a || b\<close> on values\<close>

definition jsOr :: "json \<Rightarrow> json \<Rightarrow> json" where
  "jsOr a b = (if truthy a then a else b)"

text \<open>\<^verbatim>\<open>v?.[0]\<close>: element 0 of an array, the first character of a string, the key "0" of an object.\<close>

fun optIndex0 :: "json \<Rightarrow> json" where
  "optIndex0 (JArr xs) = (case xs of [] \<Rightarrow> JUndefined | x # _ \<Rightarrow> x)"
| "optIndex0 (JStr s) = (case s of [] \<Rightarrow> JUndefined | c # _ \<Rightarrow> JStr [c])"
| "optIndex0 (JObj kvs) = get (JObj kvs) ''0''"
| "optIndex0 v = JUndefined"

text \<open>
  What \<^verbatim>\<open>for (const x of v)\<close> iterates over: the elements of an array, the characters of
  a string; every other value is not iterable and the loop throws before its first step.
\<close>

fun iterate :: "json \<Rightarrow> json list option" where
  "iterate (JArr xs) = Some xs"
| "iterate (JStr s) = Some (map (\<lambda>c. JStr [c]) s)"
| "iterate v = None"

datatype error = TypeError string

fun message :: "error \<Rightarrow> string" where
  "message (TypeError m) = m"

text \<open>The texts of the engine's TypeErrors (their exact wording is the engine's).\<close>

definition cannotRead :: "json \<Rightarrow> string \<Rightarrow> error" where
  "cannotRead v k =
     TypeError (''Cannot read properties of '' @ (if v = JNull then ''null'' else ''undefined'')
                @ '' (reading '' @ k @ '')'')"

definition notIterable :: "string \<Rightarrow> error" where
  "notIterable what = TypeError (what @ '' is not iterable'')"

definition notAFunction :: "string \<Rightarrow> error" where
  "notAFunction what = TypeError (what @ '' is not a function'')"

subsection \<open>Strings\<close>

text \<open>
  \<^verbatim>\<open>String.prototype.toLowerCase\<close> on the ASCII letters; other characters are left as
  they are. \<open>includes_js s k\<close> is \<^verbatim>\<open>s.includes(k)\<close>: \<open>k\<close> occurs in \<open>s\<close> as a contiguous
  substring.
\<close>

definition lowerChar :: "char \<Rightarrow> char" where
  "lowerChar c =
     (case map_of (zip ''ABCDEFGHIJKLMNOPQRSTUVWXYZ'' ''abcdefghijklmnopqrstuvwxyz'') c of
        Some l \<Rightarrow> l
      | None \<Rightarrow> c)"

definition toLowerCase :: "string \<Rightarrow> string" where
  "toLowerCase s = map lowerChar s"

fun includes_js :: "string \<Rightarrow> string \<Rightarrow> bool" where
  "includes_js [] k = (k = [])"
| "includes_js (c # cs) k = (prefix k (c # cs) \<or> includes_js cs k)"

text \<open>The decimal digits of a number, for \<^verbatim>\<open>`msg_${Date.now()}`\<close>.\<close>

fun decimal :: "nat \<Rightarrow> string" where
  "decimal n =
     (if n < 10 then [''0123456789'' ! n]
      else decimal (n div 10) @ [''0123456789'' ! (n mod 10)])"

declare decimal.simps [simp del]

section \<open>The document store\<close>

text \<open>
  The collections of the database, as the code reads and writes them. A stored
  document is a record of the fields the code gives it; a field whose value comes out
  of a payload holds a \<open>json\<close>. The \<^verbatim>\<open>_id\<close> of a document is the ObjectId the store
  assigns on insert, a number from a counter here; a collection is the list of its
  documents in insertion order, each paired with its \<^verbatim>\<open>_id\<close>. Store operations
  succeed: a failing store is outside the model.

  Accounts and automations are written by the management surface only; their records
  have the shape of the data model (\<^verbatim>\<open>triggerKeywords\<close> absent or an array of strings).
\<close>

record account =
  acc_instagramId :: json
  accessToken :: json

record automation =
  a_instagramId :: json
  a_type :: string
  isActive :: bool
  a_name :: string
  triggerKeywords :: "string list option"
  replyMessage :: string

record messageData =
  m_instagramId :: json
  messageId :: json
  senderId :: json
  recipientId :: json
  m_timestamp :: json
  m_text :: json
  attachments :: json
  isEcho :: bool
  m_createdAt :: nat
  m_processed :: bool

record commentData =
  c_instagramId :: json
  commentId :: json
  mediaId :: json
  parentId :: json
  userId :: json
  username :: json
  c_text :: json
  c_timestamp :: json
  c_createdAt :: nat
  isProcessed :: bool
  automationId :: "nat option"
  replyId :: "json option"
  repliedAt :: "nat option"

record automationLog =
  l_automationId :: nat
  l_automationName :: string
  l_instagramId :: json
  triggeredBy :: json
  triggerText :: json
  l_replyMessage :: string
  triggerType :: string
  l_timestamp :: nat

record webhookLog =
  eventType :: string
  wl_data :: json
  success :: bool
  wl_error :: "string option"
  wl_timestamp :: nat
  wl_createdAt :: nat
  source :: string
  wl_processed :: bool
  wl_processedAt :: "nat option"
  processorResponse :: "string option"

record webhookEvent =
  e_data :: json
  processed :: bool
  e_createdAt :: nat
  e_error :: "string option"
  processedAt :: "nat option"

type_synonym 'a stored = "nat \<times> 'a"

subsection \<open>The outside world\<close>

text \<open>
  An outbound call is a POST to the Graph API: to \<^verbatim>\<open>/{instagramId}/messages\<close> with
  recipient, text and token, or to \<^verbatim>\<open>/{commentId}/replies\<close> with message and token.
  \<open>fetch\<close> either rejects (transport failure) or gives a response with its \<^verbatim>\<open>ok\<close>
  flag and a body, whose \<^verbatim>\<open>json()\<close> either rejects or parses.
\<close>

datatype request =
    PostMessages json json string json
  | PostReplies json string json

datatype response =
    Rejects string
  | Response bool "string + json"

text \<open>A call of one of the two dispatcher operations, with its arguments.\<close>

datatype dispatch =
    SendDirectMessage json json string
  | ReplyToComment json string json

text \<open>
  The state: the collections, the ObjectId counter, and the environment. The clock and
  the network are oracles: the \<open>n\<close>-th reading of the clock gives \<open>clock n\<close>, the \<open>n\<close>-th
  outbound call gets the response \<open>network n\<close> of its request. \<open>outbound\<close> records the
  HTTP calls attempted and \<open>invoked\<close> the calls of the dispatcher operations, in order;
  the program never reads either.
\<close>

record world =
  messages :: "messageData stored list"
  comments :: "commentData stored list"
  automations :: "automation stored list"
  accounts :: "account stored list"
  automation_logs :: "automationLog stored list"
  webhook_logs :: "webhookLog stored list"
  webhook_events :: "webhookEvent stored list"
  nextId :: nat
  clock :: "nat \<Rightarrow> nat"
  ticks :: nat
  network :: "nat \<Rightarrow> request \<Rightarrow> response"
  outbound :: "request list"
  invoked :: "dispatch list"

text \<open>\<^verbatim>\<open>Date.now()\<close> and \<^verbatim>\<open>new Date()\<close>\<close>

definition dateNow :: "world \<Rightarrow> nat \<times> world" where
  "dateNow w = (clock w (ticks w), w\<lparr>ticks := Suc (ticks w)\<rparr>)"

text \<open>\<^verbatim>\<open>v || f(Date.now())\<close>: the clock is read only when \<open>v\<close> is falsy.\<close>

definition orNow :: "json \<Rightarrow> (nat \<Rightarrow> json) \<Rightarrow> world \<Rightarrow> json \<times> world" where
  "orNow v f w = (if truthy v then (v, w) else (let (t, w') = dateNow w in (f t, w')))"

definition freshId :: "world \<Rightarrow> nat \<times> world" where
  "freshId w = (nextId w, w\<lparr>nextId := Suc (nextId w)\<rparr>)"

definition fetch :: "request \<Rightarrow> world \<Rightarrow> response \<times> world" where
  "fetch req w = (network w (length (outbound w)) req, w\<lparr>outbound := outbound w @ [req]\<rparr>)"

text \<open>
  \<^verbatim>\<open>updateOne(filter, {$set: ...})\<close>: the first document that matches the filter is
  updated; \<open>byId i\<close> is the filter \<^verbatim>\<open>{_id: i}\<close>.
\<close>

fun updateOne :: "(nat \<Rightarrow> 'a \<Rightarrow> bool) \<Rightarrow> ('a \<Rightarrow> 'a) \<Rightarrow> 'a stored list \<Rightarrow> 'a stored list" where
  "updateOne P f [] = []"
| "updateOne P f ((i, d) # ds) = (if P i d then (i, f d) # ds else (i, d) # updateOne P f ds)"

definition byId :: "nat \<Rightarrow> nat \<Rightarrow> 'a \<Rightarrow> bool" where
  "byId i = (\<lambda>j d. j = i)"

section \<open>Audit sink\<close>

text \<open>
  \<^verbatim>\<open>logEvent(eventType, data, success = true, error)\<close> of the render server: one record
  appended to \<^verbatim>\<open>webhook_logs\<close>, with two readings of the clock.
\<close>

definition logEvent :: "string \<Rightarrow> json \<Rightarrow> bool \<Rightarrow> string option \<Rightarrow> world \<Rightarrow> world" where
  "logEvent evType dat ok err w =
     (let (t1, w1) = dateNow w;
          (t2, w2) = dateNow w1;
          (i, w3) = freshId w2
      in w3\<lparr>webhook_logs := webhook_logs w3 @
            [(i, \<lparr>eventType = evType, wl_data = dat, success = ok, wl_error = err,
                  wl_timestamp = t1, wl_createdAt = t2, source = ''render_server'',
                  wl_processed = False, wl_processedAt = None, processorResponse = None\<rparr>)]\<rparr>)"

text \<open>
  The two programs share the functions below statement for statement, except that the
  automation processor (\<^verbatim>\<open>server.js\<close>) writes to the console where the render server
  calls \<open>logEvent\<close>, and has one more branch in \<open>processWebhookEntries\<close>. The first
  argument of each function says which program runs.
\<close>

datatype program = RenderServer | AutomationProcessor

definition logEventIn ::
  "program \<Rightarrow> string \<Rightarrow> json \<Rightarrow> bool \<Rightarrow> string option \<Rightarrow> world \<Rightarrow> world" where
  "logEventIn p evType dat ok err w =
     (case p of RenderServer \<Rightarrow> logEvent evType dat ok err w | AutomationProcessor \<Rightarrow> w)"

definition logAutomationTrigger ::
  "automation stored \<Rightarrow> json \<Rightarrow> json \<Rightarrow> json \<Rightarrow> string \<Rightarrow> string \<Rightarrow> world \<Rightarrow> world" where
  "logAutomationTrigger a instagramId whom trigger reply ty w =
     (let (t, w1) = dateNow w;
          (i, w2) = freshId w1
      in w2\<lparr>automation_logs := automation_logs w2 @
            [(i, \<lparr>l_automationId = fst a, l_automationName = a_name (snd a),
                  l_instagramId = instagramId, triggeredBy = whom, triggerText = trigger,
                  l_replyMessage = reply, triggerType = ty, l_timestamp = t\<rparr>)]\<rparr>)"

section \<open>Action dispatcher\<close>

text \<open>The result object: \<^verbatim>\<open>{success: true, messageId | replyId}\<close> or \<^verbatim>\<open>{success: false, error}\<close>.\<close>

datatype result = Success json | Failure json

fun succeeded :: "result \<Rightarrow> bool" where
  "succeeded (Success i) = True"
| "succeeded (Failure e) = False"

text \<open>
  An equality filter \<^verbatim>\<open>{field: q}\<close> of the store: the driver sends \<^verbatim>\<open>undefined\<close> as
  \<^verbatim>\<open>null\<close>, and \<^verbatim>\<open>null\<close> matches a field that is null or missing.
\<close>

definition fieldMatches :: "json \<Rightarrow> json \<Rightarrow> bool" where
  "fieldMatches q v = (if nullish q then nullish v else v = q)"

text \<open>\<^verbatim>\<open>db.collection("accounts").findOne({ instagramId })\<close>\<close>

definition findAccount :: "json \<Rightarrow> world \<Rightarrow> account stored option" where
  "findAccount instagramId w =
     find (\<lambda>a. fieldMatches instagramId (acc_instagramId (snd a))) (accounts w)"

text \<open>
  What both operations do with the outcome of \<open>fetch\<close>: a rejected call, a body that does
  not parse and a \<^verbatim>\<open>null\<close> body (reading its \<^verbatim>\<open>id\<close> throws) end in the
  \<^verbatim>\<open>catch\<close>; a response that is not \<^verbatim>\<open>ok\<close> fails with its body.
\<close>

fun readResponse :: "response \<Rightarrow> result" where
  "readResponse (Rejects m) = Failure (JStr m)"
| "readResponse (Response ok (Inl m)) = Failure (JStr m)"
| "readResponse (Response ok (Inr responseData)) =
     (if ok then
        (if nullish responseData then Failure (JStr (message (cannotRead responseData ''id'')))
         else Success (get responseData ''id''))
      else Failure responseData)"

definition sendDirectMessage :: "json \<Rightarrow> json \<Rightarrow> string \<Rightarrow> world \<Rightarrow> result \<times> world" where
  "sendDirectMessage instagramId recipient msg w0 =
     (let w = w0\<lparr>invoked := invoked w0 @ [SendDirectMessage instagramId recipient msg]\<rparr> in
      case findAccount instagramId w of
        None \<Rightarrow> (Failure (JStr ''No access token''), w)
      | Some acct \<Rightarrow>
          if \<not> truthy (accessToken (snd acct)) then (Failure (JStr ''No access token''), w)
          else (let (resp, w') =
                      fetch (PostMessages instagramId recipient msg (accessToken (snd acct))) w
                in (readResponse resp, w')))"

definition replyToComment :: "json \<Rightarrow> string \<Rightarrow> json \<Rightarrow> world \<Rightarrow> result \<times> world" where
  "replyToComment cid reply instagramId w0 =
     (let w = w0\<lparr>invoked := invoked w0 @ [ReplyToComment cid reply instagramId]\<rparr> in
      case findAccount instagramId w of
        None \<Rightarrow> (Failure (JStr ''No access token''), w)
      | Some acct \<Rightarrow>
          if \<not> truthy (accessToken (snd acct)) then (Failure (JStr ''No access token''), w)
          else (let (resp, w') = fetch (PostReplies cid reply (accessToken (snd acct))) w
                in (readResponse resp, w')))"

section \<open>Automation matcher\<close>

text \<open>\<^verbatim>\<open>automation.triggerKeywords || []\<close>\<close>

definition keywordsOf :: "automation \<Rightarrow> string list" where
  "keywordsOf a = (case triggerKeywords a of None \<Rightarrow> [] | Some ks \<Rightarrow> ks)"

text \<open>\<^verbatim>\<open>keywords.some((keyword) => text.includes(keyword.toLowerCase()))\<close>\<close>

definition hasKeyword :: "string \<Rightarrow> string list \<Rightarrow> bool" where
  "hasKeyword t keywords = list_ex (\<lambda>keyword. includes_js t (toLowerCase keyword)) keywords"

text \<open>\<^verbatim>\<open>db.collection("automations").find({ instagramId, isActive: true, type })\<close>\<close>

definition findAutomations :: "json \<Rightarrow> string \<Rightarrow> world \<Rightarrow> automation stored list" where
  "findAutomations instagramId ty w =
     filter (\<lambda>a. fieldMatches instagramId (a_instagramId (snd a)) \<and> isActive (snd a)
                 \<and> a_type (snd a) = ty)
       (automations w)"

text \<open>The JSON of a message or comment object, as it goes into a log payload.\<close>

definition messageJson :: "messageData stored \<Rightarrow> json" where
  "messageJson m =
     (case m of (i, d) \<Rightarrow>
        JObj [(''instagramId'', m_instagramId d), (''messageId'', messageId d),
              (''senderId'', senderId d), (''recipientId'', recipientId d),
              (''timestamp'', JDate (m_timestamp d)), (''text'', m_text d),
              (''attachments'', attachments d), (''isEcho'', JBool (isEcho d)),
              (''createdAt'', JDate (JNum (int (m_createdAt d)))),
              (''processed'', JBool (m_processed d)), (''_id'', JOid i)])"

definition commentJson :: "commentData stored \<Rightarrow> json" where
  "commentJson c =
     (case c of (i, d) \<Rightarrow>
        JObj [(''instagramId'', c_instagramId d), (''commentId'', commentId d),
              (''mediaId'', mediaId d), (''parentId'', parentId d), (''userId'', userId d),
              (''username'', username d), (''text'', c_text d),
              (''timestamp'', JDate (c_timestamp d)),
              (''createdAt'', JDate (JNum (int (c_createdAt d)))),
              (''isProcessed'', JBool (isProcessed d)), (''_id'', JOid i)])"

text \<open>\<^verbatim>\<open>text.toLowerCase()\<close> throws when the text is not a string.\<close>

definition lowerError :: "json \<Rightarrow> string \<Rightarrow> error" where
  "lowerError v what =
     (if nullish v then cannotRead v ''toLowerCase'' else notAFunction (what @ ''.toLowerCase''))"

text \<open>
  The \<^verbatim>\<open>for\<close> loop of \<open>processMessageAutomation\<close>: the first automation with a
  keyword in the text is dispatched, and the \<^verbatim>\<open>break\<close> ends the loop.
\<close>

fun messageLoop ::
  "program \<Rightarrow> json \<Rightarrow> messageData stored \<Rightarrow> string \<Rightarrow> automation stored list \<Rightarrow> world \<Rightarrow> world" where
  "messageLoop p instagramId m messageText [] w = w"
| "messageLoop p instagramId m messageText (a # as) w =
     (if hasKeyword messageText (keywordsOf (snd a)) then
        (let (r, w1) = sendDirectMessage instagramId (senderId (snd m)) (replyMessage (snd a)) w;
             w2 = logEventIn p ''automation_triggered''
                    (JObj [(''automationName'', JStr (a_name (snd a))),
                           (''triggerText'', m_text (snd m)),
                           (''replyMessage'', JStr (replyMessage (snd a))),
                           (''success'', JBool (succeeded r))]) True None w1
         in if succeeded r
            then logAutomationTrigger a instagramId (senderId (snd m)) (m_text (snd m))
                   (replyMessage (snd a)) ''message'' w2
            else w2)
      else messageLoop p instagramId m messageText as w)"

definition processMessageAutomation :: "program \<Rightarrow> json \<Rightarrow> messageData stored \<Rightarrow> world \<Rightarrow> world" where
  "processMessageAutomation p instagramId m w =
     (let found = findAutomations instagramId ''message'' w in
      if found = [] then
        logEventIn p ''no_message_automations'' (JObj [(''instagramId'', instagramId)]) True None w
      else
        (case m_text (snd m) of
           JStr s \<Rightarrow> messageLoop p instagramId m (toLowerCase s) found w
         | v \<Rightarrow>
             (let e = lowerError v ''messageData.text'' in
              logEventIn p ''message_automation_error''
                (JObj [(''messageData'', messageJson m), (''error'', JStr (message e))])
                False (Some (message e)) w)))"

text \<open>
  The loop of \<open>processCommentAutomation\<close>. Only a successful reply is followed by the
  firing record and by the update of the stored comment.
\<close>

fun commentLoop ::
  "program \<Rightarrow> json \<Rightarrow> commentData stored \<Rightarrow> string \<Rightarrow> automation stored list \<Rightarrow> world \<Rightarrow> world" where
  "commentLoop p instagramId c commentText [] w = w"
| "commentLoop p instagramId c commentText (a # as) w =
     (if hasKeyword commentText (keywordsOf (snd a)) then
        (let (r, w1) = replyToComment (commentId (snd c)) (replyMessage (snd a)) instagramId w;
             w2 = logEventIn p ''comment_automation_triggered''
                    (JObj [(''automationName'', JStr (a_name (snd a))),
                           (''triggerText'', c_text (snd c)),
                           (''replyMessage'', JStr (replyMessage (snd a))),
                           (''success'', JBool (succeeded r))]) True None w1
         in case r of
              Success rid \<Rightarrow>
                (let w3 = logAutomationTrigger a instagramId (userId (snd c)) (c_text (snd c))
                            (replyMessage (snd a)) ''comment'' w2;
                     (t, w4) = dateNow w3
                 in w4\<lparr>comments :=
                        updateOne (byId (fst c))
                          (\<lambda>d. d\<lparr>isProcessed := True, automationId := Some (fst a),
                                  replyId := Some rid, repliedAt := Some t\<rparr>)
                          (comments w4)\<rparr>)
            | Failure e \<Rightarrow> w2)
      else commentLoop p instagramId c commentText as w)"

definition processCommentAutomation :: "program \<Rightarrow> json \<Rightarrow> commentData stored \<Rightarrow> world \<Rightarrow> world" where
  "processCommentAutomation p instagramId c w =
     (let found = findAutomations instagramId ''comment'' w in
      if found = [] then
        logEventIn p ''no_comment_automations'' (JObj [(''instagramId'', instagramId)]) True None w
      else
        (case c_text (snd c) of
           JStr s \<Rightarrow> commentLoop p instagramId c (toLowerCase s) found w
         | v \<Rightarrow>
             (let e = lowerError v ''commentData.text'' in
              logEventIn p ''comment_automation_error''
                (JObj [(''commentData'', commentJson c), (''error'', JStr (message e))])
                False (Some (message e)) w)))"

section \<open>Event normalizer\<close>

definition insertMessage :: "messageData \<Rightarrow> world \<Rightarrow> nat \<times> world" where
  "insertMessage d w = (let (i, w1) = freshId w in (i, w1\<lparr>messages := messages w1 @ [(i, d)]\<rparr>))"

definition insertComment :: "commentData \<Rightarrow> world \<Rightarrow> nat \<times> world" where
  "insertComment d w = (let (i, w1) = freshId w in (i, w1\<lparr>comments := comments w1 @ [(i, d)]\<rparr>))"

text \<open>
  \<open>handleMessage\<close>: reading \<^verbatim>\<open>message.message\<close> of a nullish item throws into the
  function's own \<^verbatim>\<open>catch\<close>; an item without a message payload and an echo are
  skipped; every other item is stored and, when its text is truthy, matched.
\<close>

definition handleMessage :: "program \<Rightarrow> json \<Rightarrow> json \<Rightarrow> world \<Rightarrow> world" where
  "handleMessage p instagramId msg w =
     (if nullish msg then
        (let e = cannotRead msg ''message'' in
         logEventIn p ''message_handling_error''
           (JObj [(''message'', msg), (''error'', JStr (message e))]) False (Some (message e)) w)
      else if \<not> truthy (get msg ''message'') \<or> truthy (get (get msg ''message'') ''is_echo'')
      then w
      else
        (let (mid, w1) = orNow (get (get msg ''message'') ''mid'')
                           (\<lambda>t. JStr (''msg_'' @ decimal t)) w;
             (ts, w2) = orNow (get msg ''timestamp'') (\<lambda>t. JNum (int t)) w1;
             (created, w3) = dateNow w2;
             messageData =
               \<lparr>m_instagramId = instagramId,
                messageId = mid,
                senderId = optGet (get msg ''sender'') ''id'',
                recipientId = optGet (get msg ''recipient'') ''id'',
                m_timestamp = ts,
                m_text = jsOr (get (get msg ''message'') ''text'') (JStr []),
                attachments = jsOr (get (get msg ''message'') ''attachments'') (JArr []),
                isEcho = False,
                m_createdAt = created,
                m_processed = False\<rparr>;
             (i, w4) = insertMessage messageData w3;
             w5 = logEventIn p ''message_stored''
                    (JObj [(''messageId'', JOid i), (''text'', m_text messageData)]) True None w4
         in if truthy (m_text messageData)
            then processMessageAutomation p instagramId (i, messageData) w5
            else w5))"

definition handleComment :: "program \<Rightarrow> json \<Rightarrow> json \<Rightarrow> world \<Rightarrow> world" where
  "handleComment p instagramId commentValue w =
     (if nullish commentValue then
        (let e = cannotRead commentValue ''id'' in
         logEventIn p ''comment_handling_error''
           (JObj [(''commentValue'', commentValue), (''error'', JStr (message e))])
           False (Some (message e)) w)
      else
        (let (cid, w1) = orNow (jsOr (get commentValue ''id'') (get commentValue ''comment_id''))
                           (\<lambda>t. JStr (''comment_'' @ decimal t)) w;
             (ts, w2) = orNow (jsOr (get commentValue ''created_time'') (get commentValue ''timestamp''))
                          (\<lambda>t. JNum (int t)) w1;
             (created, w3) = dateNow w2;
             commentData =
               \<lparr>c_instagramId = instagramId,
                commentId = cid,
                mediaId = optGet (get commentValue ''media'') ''id'',
                parentId = get commentValue ''parent_id'',
                userId = optGet (get commentValue ''from'') ''id'',
                username = optGet (get commentValue ''from'') ''username'',
                c_text = jsOr (get commentValue ''text'') (JStr []),
                c_timestamp = ts,
                c_createdAt = created,
                isProcessed = False,
                automationId = None,
                replyId = None,
                repliedAt = None\<rparr>;
             (i, w4) = insertComment commentData w3;
             w5 = logEventIn p ''comment_stored''
                    (JObj [(''commentId'', JOid i), (''text'', c_text commentData),
                           (''username'', username commentData)]) True None w4
         in if truthy (c_text commentData)
            then processCommentAutomation p instagramId (i, commentData) w5
            else w5))"

text \<open>
  The loop over \<^verbatim>\<open>entry.changes\<close>. Reading \<^verbatim>\<open>change.field\<close> of a nullish change
  throws out of the loop, into the \<^verbatim>\<open>catch\<close> of the entry.
\<close>

fun changesLoop :: "program \<Rightarrow> json \<Rightarrow> json list \<Rightarrow> world \<Rightarrow> error option \<times> world" where
  "changesLoop p instagramId [] w = (None, w)"
| "changesLoop p instagramId (change # rest) w =
     (if nullish change then (Some (cannotRead change ''field''), w)
      else if get change ''field'' = JStr ''comments'' \<or> get change ''field'' = JStr ''live_comments''
      then changesLoop p instagramId rest (handleComment p instagramId (get change ''value'') w)
      else changesLoop p instagramId rest w)"

definition entryError :: "program \<Rightarrow> json \<Rightarrow> error \<Rightarrow> world \<Rightarrow> world" where
  "entryError p entry e w =
     logEventIn p ''entry_processing_error''
       (JObj [(''entry'', entry), (''error'', JStr (message e))]) False (Some (message e)) w"

text \<open>
  The body of the loop of \<open>processWebhookEntries\<close>, with its \<^verbatim>\<open>try\<close>/\<^verbatim>\<open>catch\<close>. The
  last branch (an entry with \<^verbatim>\<open>field\<close> and \<^verbatim>\<open>value\<close> of its own) is in the automation
  processor only.
\<close>

definition processEntry :: "program \<Rightarrow> json \<Rightarrow> world \<Rightarrow> world" where
  "processEntry p entry w =
     (if nullish entry then entryError p entry (cannotRead entry ''id'') w
      else
        (let instagramId = get entry ''id'';
             w1 = (case get entry ''messaging'' of
                     JArr ms \<Rightarrow> fold (handleMessage p instagramId) ms w
                   | v \<Rightarrow> w);
             (thrown, w2) = (case get entry ''changes'' of
                               JArr cs \<Rightarrow> changesLoop p instagramId cs w1
                             | v \<Rightarrow> (None, w1))
         in case thrown of
              Some e \<Rightarrow> entryError p entry e w2
            | None \<Rightarrow>
                if p = AutomationProcessor \<and>
                   (get entry ''field'' = JStr ''comments'' \<or> get entry ''field'' = JStr ''live_comments'')
                then handleComment p instagramId (get entry ''value'') w2
                else w2))"

text \<open>
  \<open>processWebhookEntries\<close> throws only when \<^verbatim>\<open>entries\<close> is not iterable, before any
  entry is processed; everything thrown inside an entry is caught there.
\<close>

definition processWebhookEntries :: "program \<Rightarrow> json \<Rightarrow> world \<Rightarrow> error + world" where
  "processWebhookEntries p entries w =
     (case iterate entries of
        None \<Rightarrow> Inl (notIterable ''entries'')
      | Some es \<Rightarrow> Inr (fold (processEntry p) es w))"

section \<open>Endpoints\<close>

text \<open>An HTTP response: status and JSON body.\<close>

datatype httpResponse = Http nat json

text \<open>
  \<^verbatim>\<open>POST /webhook/process\<close> of the render server, after its \<^verbatim>\<open>verifyAuth\<close> middleware
  has let the request through; \<open>webhookData\<close> is the request body.
\<close>

definition webhookProcess :: "json \<Rightarrow> world \<Rightarrow> httpResponse \<times> world" where
  "webhookProcess webhookData w =
     (let failed = (\<lambda>e w'.
            (Http 500 (JObj [(''error'', JStr ''Internal server error'')]),
             logEvent ''webhook_processing_error'' (JObj [(''error'', JStr (message e))])
               False (Some (message e)) w'))
      in if nullish webhookData then failed (cannotRead webhookData ''object'') w
         else if get webhookData ''object'' = JStr ''instagram'' \<and> truthy (get webhookData ''entry'')
         then (case processWebhookEntries RenderServer (get webhookData ''entry'') w of
                 Inl e \<Rightarrow> failed e w
               | Inr w1 \<Rightarrow>
                   (Http 200 (JObj [(''success'', JBool True),
                                    (''message'', JStr ''Webhook processed successfully'')]),
                    logEvent ''webhook_processed_on_render'' webhookData True None w1))
         else (Http 400 (JObj [(''error'', JStr ''Invalid webhook format'')]), w))"

text \<open>
  \<^verbatim>\<open>POST /process-webhook\<close> of the automation processor, with a connected database. The
  handler checks the authorization header itself, then marks a record of
  \<^verbatim>\<open>webhook_logs\<close> whose \<^verbatim>\<open>data.entry.0.id\<close> is the id of the first entry, then processes
  the entries of an Instagram envelope, and answers with success in either case.
\<close>

definition processWebhook :: "string \<Rightarrow> string option \<Rightarrow> json \<Rightarrow> world \<Rightarrow> httpResponse \<times> world" where
  "processWebhook secret authHeader webhookData w =
     (if authHeader = None \<or> authHeader = Some [] \<or> authHeader \<noteq> Some (''Bearer '' @ secret)
      then (Http 401 (JObj [(''error'', JStr ''Unauthorized'')]), w)
      else if nullish webhookData
      then (Http 500 (JObj [(''error'', JStr (message (cannotRead webhookData ''object'')))]), w)
      else
        (let q = optGet (optIndex0 (get webhookData ''entry'')) ''id'';
             (t, w0) = dateNow w;
             w1 = w0\<lparr>webhook_logs :=
                      updateOne
                        (\<lambda>i d. fieldMatches q (optGet (optIndex0 (optGet (wl_data d) ''entry'')) ''id''))
                        (\<lambda>d. d\<lparr>wl_processed := True, wl_processedAt := Some t,
                                processorResponse := Some ''Processing started''\<rparr>)
                        (webhook_logs w0)\<rparr>;
             okBody = JObj [(''success'', JBool True),
                            (''message'', JStr ''Webhook processed successfully'')]
         in if get webhookData ''object'' = JStr ''instagram'' \<and> truthy (get webhookData ''entry'')
            then (case processWebhookEntries AutomationProcessor (get webhookData ''entry'') w1 of
                    Inl e \<Rightarrow> (Http 500 (JObj [(''error'', JStr (message e))]), w1)
                  | Inr w2 \<Rightarrow> (Http 200 okBody, w2))
            else (Http 200 okBody, w1)))"

section \<open>Reconciliation\<close>

text \<open>
  \<^verbatim>\<open>find({ processed: false }).sort({ createdAt: 1 }).limit(n).toArray()\<close> on
  \<^verbatim>\<open>webhook_events\<close>; the sort keeps the stored order of events created at the same time.
\<close>

definition fetchPending :: "nat \<Rightarrow> world \<Rightarrow> webhookEvent stored list" where
  "fetchPending n w =
     take n (sort_key (\<lambda>ev. e_createdAt (snd ev))
               (filter (\<lambda>ev. processed (snd ev) = False) (webhook_events w)))"

text \<open>The \<^verbatim>\<open>catch\<close> of the sweep: the failure is written on the event.\<close>

definition recordFailure :: "webhookEvent stored \<Rightarrow> error \<Rightarrow> world \<Rightarrow> world" where
  "recordFailure ev e w =
     (let (t, w1) = dateNow w
      in w1\<lparr>webhook_events :=
             updateOne (byId (fst ev))
               (\<lambda>d. d\<lparr>e_error := Some (message e), processedAt := Some t\<rparr>)
               (webhook_events w1)\<rparr>)"

text \<open>The body of the loop of \<^verbatim>\<open>POST /process/pending\<close>, for one pending event.\<close>

definition sweepEvent :: "webhookEvent stored \<Rightarrow> world \<Rightarrow> world" where
  "sweepEvent ev w =
     (let dat = e_data (snd ev) in
      if nullish dat then recordFailure ev (cannotRead dat ''object'') w
      else if get dat ''object'' = JStr ''instagram'' \<and> truthy (get dat ''entry'')
      then (case processWebhookEntries RenderServer (get dat ''entry'') w of
              Inl e \<Rightarrow> recordFailure ev e w
            | Inr w1 \<Rightarrow>
                (let (t, w2) = dateNow w1
                 in w2\<lparr>webhook_events :=
                        updateOne (byId (fst ev))
                          (\<lambda>d. d\<lparr>processed := True, processedAt := Some t\<rparr>)
                          (webhook_events w2)\<rparr>))
      else w)"

definition processPending :: "world \<Rightarrow> httpResponse \<times> world" where
  "processPending w =
     (let pendingEvents = fetchPending 50 w
      in (Http 200 (JObj [(''success'', JBool True),
                          (''processed'', JNum (int (length pendingEvents)))]),
          fold sweepEvent pendingEvents w))"

section \<open>Specification vocabulary and sample data\<close>

text \<open>
  The matcher as the specification words it: the first automation, in load order, one
  of whose trigger keywords, lowercased, is a substring of the lowercased event text.
\<close>

definition spec_firstMatch :: "string \<Rightarrow> automation stored list \<Rightarrow> automation stored option" where
  "spec_firstMatch t loaded =
     find (\<lambda>a. case triggerKeywords (snd a) of
                  None \<Rightarrow> False
                | Some ks \<Rightarrow> \<exists>k\<in>set ks. includes_js (toLowerCase t) (toLowerCase k))
       loaded"

text \<open>What a run adds to the record of dispatcher calls.\<close>

definition newlyInvoked :: "world \<Rightarrow> world \<Rightarrow> dispatch list" where
  "newlyInvoked w w' = drop (length (invoked w)) (invoked w')"

text \<open>
  The comment ids a webhook payload carries: the \<^verbatim>\<open>id\<close> (or \<^verbatim>\<open>comment_id\<close>) of the value
  of each \<^verbatim>\<open>comments\<close> or \<^verbatim>\<open>live_comments\<close> change of each entry. A comment without
  either gets a synthetic id, \<^verbatim>\<open>comment_\<close> followed by the time. \<open>repliedTo\<close> lists the
  comment ids of the \<open>replyToComment\<close> calls in a record of dispatcher calls, and
  \<open>replies A w w'\<close> says that the run from \<open>w\<close> to \<open>w'\<close> only added calls to that record,
  and that the comments replied to all satisfy \<open>A\<close>.
\<close>

definition explicitId :: "json \<Rightarrow> json" where
  "explicitId commentValue = jsOr (get commentValue ''id'') (get commentValue ''comment_id'')"

definition synthetic :: "json \<Rightarrow> bool" where
  "synthetic c = (case c of JStr s \<Rightarrow> prefix ''comment_'' s | v \<Rightarrow> False)"

fun repliedTo :: "dispatch list \<Rightarrow> json list" where
  "repliedTo [] = []"
| "repliedTo (ReplyToComment c m i # xs) = c # repliedTo xs"
| "repliedTo (SendDirectMessage i r m # xs) = repliedTo xs"

definition isCommentChange :: "json \<Rightarrow> bool" where
  "isCommentChange change =
     (get change ''field'' = JStr ''comments'' \<or> get change ''field'' = JStr ''live_comments'')"

definition entryIds :: "program \<Rightarrow> json \<Rightarrow> json list" where
  "entryIds p entry =
     (case get entry ''changes'' of
        JArr cs \<Rightarrow> map (\<lambda>change. explicitId (get change ''value'')) (filter isCommentChange cs)
      | v \<Rightarrow> [])
     @ (if p = AutomationProcessor \<and> isCommentChange entry then [explicitId (get entry ''value'')] else [])"

definition carriedIds :: "program \<Rightarrow> json \<Rightarrow> json list" where
  "carriedIds p entries =
     (case iterate entries of None \<Rightarrow> [] | Some es \<Rightarrow> concat (map (entryIds p) es))"

definition eventIds :: "webhookEvent stored \<Rightarrow> json list" where
  "eventIds ev = carriedIds RenderServer (get (e_data (snd ev)) ''entry'')"

definition replies :: "(json \<Rightarrow> bool) \<Rightarrow> world \<Rightarrow> world \<Rightarrow> bool" where
  "replies A w w' \<longleftrightarrow> (\<exists>xs. invoked w' = invoked w @ xs \<and> list_all A (repliedTo xs))"

text \<open>
  When the sweep's \<^verbatim>\<open>try\<close> block throws for an event: its \<^verbatim>\<open>data\<close> is nullish, or it
  is an Instagram envelope whose \<^verbatim>\<open>entry\<close> cannot be iterated.
\<close>

definition isEnvelope :: "json \<Rightarrow> bool" where
  "isEnvelope dat = (get dat ''object'' = JStr ''instagram'' \<and> truthy (get dat ''entry''))"

definition sweepThrows :: "webhookEvent stored \<Rightarrow> error option" where
  "sweepThrows ev =
     (let dat = e_data (snd ev) in
      if nullish dat then Some (cannotRead dat ''object'')
      else if isEnvelope dat \<and> iterate (get dat ''entry'') = None then Some (notIterable ''entries'')
      else None)"



definition commentText :: "json \<Rightarrow> json" where
  "commentText commentValue = jsOr (get commentValue ''text'') (JStr [])"









definition commentKey :: "commentData stored \<Rightarrow> json \<times> json" where
  "commentKey c = (c_instagramId (snd c), c_text (snd c))"

text \<open>
  A small shop for the examples: account \<^verbatim>\<open>acct1\<close> with a token, two comment rules,
  a catch-all comment rule, a message rule and a catch-all message rule (a catch-all rule
  has the empty keyword). The network accepts a reply
  to comment \<^verbatim>\<open>c1\<close> and every direct message, and answers any other reply with an error.
\<close>

definition rule :: "string \<Rightarrow> string list \<Rightarrow> string \<Rightarrow> automation" where
  "rule ty ks reply =
     \<lparr>a_instagramId = JStr ''acct1'', a_type = ty, isActive = True, a_name = ''rule'',
      triggerKeywords = Some ks, replyMessage = reply\<rparr>"

definition graphApi :: "nat \<Rightarrow> request \<Rightarrow> response" where
  "graphApi n req =
     (case req of
        PostMessages i r m t \<Rightarrow> Response True (Inr (JObj [(''id'', JStr ''dm1'')]))
      | PostReplies c m t \<Rightarrow>
          if c = JStr ''c1'' then Response True (Inr (JObj [(''id'', JStr ''reply1'')]))
          else Response False (Inr (JObj [(''error'', JStr ''outage'')])))"

definition shop :: world where
  "shop =
     \<lparr>messages = [], comments = [],
      automations = [(1, rule ''comment'' [''price''] ''Here is our price list''),
                     (2, rule ''comment'' [''list'', ''price''] ''Second rule''),
                     (3, rule ''comment'' [[]] ''Thanks for your comment''),
                     (4, rule ''message'' [''price''] ''Here is our price list''),
                     (5, rule ''message'' [[]] ''Thanks for writing'')],
      accounts = [(6, \<lparr>acc_instagramId = JStr ''acct1'', accessToken = JStr ''token''\<rparr>)],
      automation_logs = [], webhook_logs = [], webhook_events = [],
      nextId = 20, clock = (\<lambda>n. 1000 + n), ticks = 0, network = graphApi,
      outbound = [], invoked = []\<rparr>"

text \<open>The same shop after its token has been removed.\<close>

definition shopNoToken :: world where
  "shopNoToken =
     shop\<lparr>accounts := [(6, \<lparr>acc_instagramId = JStr ''acct1'', accessToken = JUndefined\<rparr>)]\<rparr>"

definition comment :: "string \<Rightarrow> string \<Rightarrow> commentData" where
  "comment cid t =
     \<lparr>c_instagramId = JStr ''acct1'', commentId = JStr cid, mediaId = JUndefined,
      parentId = JUndefined, userId = JUndefined, username = JUndefined, c_text = JStr t,
      c_timestamp = JNum 1, c_createdAt = 1, isProcessed = False, automationId = None,
      replyId = None, repliedAt = None\<rparr>"

definition directMessage :: "string \<Rightarrow> messageData" where
  "directMessage t =
     \<lparr>m_instagramId = JStr ''acct1'', messageId = JStr ''m1'', senderId = JStr ''u1'',
      recipientId = JStr ''acct1'', m_timestamp = JNum 1, m_text = JStr t,
      attachments = JArr [], isEcho = False, m_createdAt = 1, m_processed = False\<rparr>"

text \<open>A backlog of three events, the second one already processed.\<close>

definition event :: "nat \<Rightarrow> bool \<Rightarrow> json \<Rightarrow> webhookEvent" where
  "event created done dat =
     \<lparr>e_data = dat, processed = done, e_createdAt = created, e_error = None, processedAt = None\<rparr>"

definition backlog :: world where
  "backlog =
     shop\<lparr>webhook_events :=
            [(7, event 7 False (JObj [])), (8, event 3 True (JObj [])), (9, event 5 False (JObj []))]\<rparr>"

text \<open>An echo of the account's own message.\<close>

definition echoItem :: json where
  "echoItem =
     JObj [(''sender'', JObj [(''id'', JStr ''acct1'')]),
           (''message'', JObj [(''mid'', JStr ''m1''), (''text'', JStr ''price''),
                               (''is_echo'', JBool True)])]"

text \<open>A message item that is stored.\<close>

definition plainItem :: json where
  "plainItem =
     JObj [(''sender'', JObj [(''id'', JStr ''u1'')]),
           (''message'', JObj [(''mid'', JStr ''m2''), (''text'', JStr ''hello'')])]"

text \<open>A webhook envelope with one comment on the account's media.\<close>

definition commentEnvelope :: "string \<Rightarrow> string \<Rightarrow> json" where
  "commentEnvelope cid t =
     JObj [(''object'', JStr ''instagram''),
           (''entry'',
            JArr [JObj [(''id'', JStr ''acct1''),
                        (''changes'',
                         JArr [JObj [(''field'', JStr ''comments''),
                                     (''value'', JObj [(''id'', JStr cid), (''text'', JStr t)])]])]])]"

text \<open>
  Comment \<^verbatim>\<open>c1\<close> has been answered: its record has \<^verbatim>\<open>isProcessed\<close> true and a
  \<^verbatim>\<open>replyId\<close>. In \<open>answered\<close> the webhook event that carried it is still pending (the
  live endpoint never marks events); in \<open>settled\<close> that event is marked processed.
\<close>

definition answered :: world where
  "answered =
     shop\<lparr>comments :=
            [(12, (comment ''c1'' ''price'')
                    \<lparr>isProcessed := True, automationId := Some 1,
                     replyId := Some (JStr ''reply0''), repliedAt := Some 900\<rparr>)],
          webhook_events := [(7, event 5 False (commentEnvelope ''c1'' ''price''))]\<rparr>"

definition settled :: world where
  "settled = answered\<lparr>webhook_events := [(7, event 5 True (commentEnvelope ''c1'' ''price''))]\<rparr>"

text \<open>
  Three pending events with one comment each; the network accepts the reply to
  \<^verbatim>\<open>c1\<close> and refuses the other two.
\<close>

definition scenarioD :: world where
  "scenarioD =
     shop\<lparr>webhook_events :=
            [(7, event 1 False (commentEnvelope ''c1'' ''price'')),
             (8, event 2 False (commentEnvelope ''c2'' ''price'')),
             (9, event 3 False (commentEnvelope ''c3'' ''price''))]\<rparr>"

text \<open>
  Three pending events: one without data, one whose \<^verbatim>\<open>entry\<close> is a number, and one
  comment whose reply the network refuses.
\<close>

definition broken :: world where
  "broken =
     shop\<lparr>webhook_events :=
            [(7, event 1 False JNull),
             (8, event 2 False (JObj [(''object'', JStr ''instagram''), (''entry'', JNum 5)])),
             (9, event 3 False (commentEnvelope ''c2'' ''price''))]\<rparr>"

text \<open>
  An envelope that is not from Instagram, and a store whose audit trail holds the record
  of its receipt.
\<close>

definition pageEnvelope :: json where
  "pageEnvelope =
     JObj [(''object'', JStr ''page''), (''entry'', JArr [JObj [(''id'', JStr ''acct1'')]])]"

definition logged :: world where
  "logged =
     shop\<lparr>webhook_logs :=
            [(13, \<lparr>eventType = ''webhook_received'', wl_data = pageEnvelope, success = True,
                   wl_error = None, wl_timestamp = 900, wl_createdAt = 900, source = ''vercel'',
                   wl_processed = False, wl_processedAt = None, processorResponse = None\<rparr>)]\<rparr>"


section \<open>Effects of the operations\<close>

lemma includes_js_Nil [simp]: "includes_js s []"
  by (induction s) auto

lemma toLowerCase_Nil [simp]: "toLowerCase [] = []"
  by (simp add: toLowerCase_def)

lemma dateNow_fields [simp]:
  "messages (snd (dateNow w)) = messages w"
  "comments (snd (dateNow w)) = comments w"
  "automations (snd (dateNow w)) = automations w"
  "accounts (snd (dateNow w)) = accounts w"
  "automation_logs (snd (dateNow w)) = automation_logs w"
  "webhook_logs (snd (dateNow w)) = webhook_logs w"
  "webhook_events (snd (dateNow w)) = webhook_events w"
  "nextId (snd (dateNow w)) = nextId w"
  "outbound (snd (dateNow w)) = outbound w"
  "invoked (snd (dateNow w)) = invoked w"
  by (simp_all add: dateNow_def)

lemma orNow_fields [simp]:
  "messages (snd (orNow v f w)) = messages w"
  "comments (snd (orNow v f w)) = comments w"
  "automations (snd (orNow v f w)) = automations w"
  "accounts (snd (orNow v f w)) = accounts w"
  "automation_logs (snd (orNow v f w)) = automation_logs w"
  "webhook_logs (snd (orNow v f w)) = webhook_logs w"
  "webhook_events (snd (orNow v f w)) = webhook_events w"
  "nextId (snd (orNow v f w)) = nextId w"
  "outbound (snd (orNow v f w)) = outbound w"
  "invoked (snd (orNow v f w)) = invoked w"
  by (simp_all add: orNow_def split_def Let_def)

lemma logEvent_fields [simp]:
  "messages (logEvent t d k e w) = messages w"
  "comments (logEvent t d k e w) = comments w"
  "automations (logEvent t d k e w) = automations w"
  "accounts (logEvent t d k e w) = accounts w"
  "automation_logs (logEvent t d k e w) = automation_logs w"
  "webhook_events (logEvent t d k e w) = webhook_events w"
  "outbound (logEvent t d k e w) = outbound w"
  "invoked (logEvent t d k e w) = invoked w"
  by (simp_all add: logEvent_def dateNow_def freshId_def)

lemma logEventIn_fields [simp]:
  "messages (logEventIn p t d k e w) = messages w"
  "comments (logEventIn p t d k e w) = comments w"
  "automations (logEventIn p t d k e w) = automations w"
  "accounts (logEventIn p t d k e w) = accounts w"
  "automation_logs (logEventIn p t d k e w) = automation_logs w"
  "webhook_events (logEventIn p t d k e w) = webhook_events w"
  "outbound (logEventIn p t d k e w) = outbound w"
  "invoked (logEventIn p t d k e w) = invoked w"
  by (simp_all add: logEventIn_def split: program.splits)

lemma logAutomationTrigger_fields [simp]:
  "messages (logAutomationTrigger a i b x r ty w) = messages w"
  "comments (logAutomationTrigger a i b x r ty w) = comments w"
  "automations (logAutomationTrigger a i b x r ty w) = automations w"
  "accounts (logAutomationTrigger a i b x r ty w) = accounts w"
  "webhook_events (logAutomationTrigger a i b x r ty w) = webhook_events w"
  "outbound (logAutomationTrigger a i b x r ty w) = outbound w"
  "invoked (logAutomationTrigger a i b x r ty w) = invoked w"
  by (simp_all add: logAutomationTrigger_def dateNow_def freshId_def)

lemma sendDirectMessage_fields [simp]:
  "messages (snd (sendDirectMessage i r m w)) = messages w"
  "comments (snd (sendDirectMessage i r m w)) = comments w"
  "automations (snd (sendDirectMessage i r m w)) = automations w"
  "accounts (snd (sendDirectMessage i r m w)) = accounts w"
  "automation_logs (snd (sendDirectMessage i r m w)) = automation_logs w"
  "webhook_logs (snd (sendDirectMessage i r m w)) = webhook_logs w"
  "webhook_events (snd (sendDirectMessage i r m w)) = webhook_events w"
  "invoked (snd (sendDirectMessage i r m w)) = invoked w @ [SendDirectMessage i r m]"
  by (simp_all add: sendDirectMessage_def fetch_def Let_def split: option.splits)

lemma replyToComment_fields [simp]:
  "messages (snd (replyToComment c r i w)) = messages w"
  "comments (snd (replyToComment c r i w)) = comments w"
  "automations (snd (replyToComment c r i w)) = automations w"
  "accounts (snd (replyToComment c r i w)) = accounts w"
  "automation_logs (snd (replyToComment c r i w)) = automation_logs w"
  "webhook_logs (snd (replyToComment c r i w)) = webhook_logs w"
  "webhook_events (snd (replyToComment c r i w)) = webhook_events w"
  "invoked (snd (replyToComment c r i w)) = invoked w @ [ReplyToComment c r i]"
  by (simp_all add: replyToComment_def fetch_def Let_def split: option.splits)

lemma map_fst_updateOne [simp]: "map fst (updateOne P f ds) = map fst ds"
  by (induction P f ds rule: updateOne.induct) auto

lemma length_updateOne [simp]: "length (updateOne P f ds) = length ds"
  by (induction P f ds rule: updateOne.induct) auto

lemma dispatch_outbound:
  "length (outbound (snd (sendDirectMessage i r m w))) \<le> Suc (length (outbound w))"
  "length (outbound (snd (replyToComment c m i w))) \<le> Suc (length (outbound w))"
  by (simp_all add: sendDirectMessage_def replyToComment_def fetch_def Let_def split: option.splits)

subsection \<open>The two matching loops\<close>

lemma messageLoop_outbound:
  "length (outbound (messageLoop p i m t as w)) \<le> Suc (length (outbound w))"
  by (induction as) (simp_all add: Let_def split_def dispatch_outbound)

lemma commentLoop_outbound:
  "length (outbound (commentLoop p i c t as w)) \<le> Suc (length (outbound w))"
  by (induction as) (simp_all add: Let_def split_def dispatch_outbound split: result.splits)

lemma messageLoop_frame:
  "messages (messageLoop p i m t as w) = messages w
   \<and> comments (messageLoop p i m t as w) = comments w
   \<and> webhook_events (messageLoop p i m t as w) = webhook_events w"
  by (induction as) (simp_all add: Let_def split_def)

lemma messageLoop_invoked:
  "invoked (messageLoop p i m t as w) =
     invoked w @ (case find (\<lambda>a. hasKeyword t (keywordsOf (snd a))) as of
                    None \<Rightarrow> []
                  | Some a \<Rightarrow> [SendDirectMessage i (senderId (snd m)) (replyMessage (snd a))])"
  by (induction as) (simp_all add: Let_def split_def)

lemma commentLoop_frame:
  "messages (commentLoop p i c t as w) = messages w
   \<and> map fst (comments (commentLoop p i c t as w)) = map fst (comments w)
   \<and> webhook_events (commentLoop p i c t as w) = webhook_events w"
  by (induction as) (simp_all add: Let_def split_def dateNow_def split: result.splits)

lemma commentLoop_invoked:
  "invoked (commentLoop p i c t as w) =
     invoked w @ (case find (\<lambda>a. hasKeyword t (keywordsOf (snd a))) as of
                    None \<Rightarrow> []
                  | Some a \<Rightarrow> [ReplyToComment (commentId (snd c)) (replyMessage (snd a)) i])"
  by (induction as) (simp_all add: Let_def split_def dateNow_def split: result.splits)

lemma commentLoop_failure:
  assumes "find (\<lambda>a. hasKeyword t (keywordsOf (snd a))) as = Some a"
    and "\<not> succeeded (fst (replyToComment (commentId (snd c)) (replyMessage (snd a)) i w))"
  shows "comments (commentLoop p i c t as w) = comments w
       \<and> automation_logs (commentLoop p i c t as w) = automation_logs w"
  using assms
  by (induction as) (auto simp: Let_def split_def split: result.splits if_splits)

lemma processMessageAutomation_frame:
  "messages (processMessageAutomation p i m w) = messages w
   \<and> comments (processMessageAutomation p i m w) = comments w
   \<and> webhook_events (processMessageAutomation p i m w) = webhook_events w"
  by (simp add: processMessageAutomation_def Let_def messageLoop_frame split: json.splits)

lemma processCommentAutomation_frame:
  "messages (processCommentAutomation p i c w) = messages w
   \<and> map fst (comments (processCommentAutomation p i c w)) = map fst (comments w)
   \<and> webhook_events (processCommentAutomation p i c w) = webhook_events w"
  by (simp add: processCommentAutomation_def Let_def commentLoop_frame split: json.splits)

text \<open>The keyword test of the code is the keyword test of the specification.\<close>

lemma hasKeyword_spec:
  "hasKeyword (toLowerCase s) (keywordsOf a) =
     (case triggerKeywords a of
        None \<Rightarrow> False
      | Some ks \<Rightarrow> \<exists>k\<in>set ks. includes_js (toLowerCase s) (toLowerCase k))"
  by (auto simp: hasKeyword_def keywordsOf_def list_ex_iff split: option.splits)

lemma find_hasKeyword:
  "find (\<lambda>a. hasKeyword (toLowerCase s) (keywordsOf (snd a))) loaded = spec_firstMatch s loaded"
  by (simp add: spec_firstMatch_def hasKeyword_spec)

lemma processCommentAutomation_invoked:
  "invoked (processCommentAutomation p i c w) =
     invoked w @
     (case c_text (snd c) of
        JStr s \<Rightarrow>
          (case spec_firstMatch s (findAutomations i ''comment'' w) of
             None \<Rightarrow> []
           | Some a \<Rightarrow> [ReplyToComment (commentId (snd c)) (replyMessage (snd a)) i])
      | v \<Rightarrow> [])"
  by (simp add: processCommentAutomation_def Let_def commentLoop_invoked find_hasKeyword
        spec_firstMatch_def split: json.splits)

lemma processMessageAutomation_invoked:
  "invoked (processMessageAutomation p i m w) =
     invoked w @
     (case m_text (snd m) of
        JStr s \<Rightarrow>
          (case spec_firstMatch s (findAutomations i ''message'' w) of
             None \<Rightarrow> []
           | Some a \<Rightarrow> [SendDirectMessage i (senderId (snd m)) (replyMessage (snd a))])
      | v \<Rightarrow> [])"
  by (simp add: processMessageAutomation_def Let_def messageLoop_invoked find_hasKeyword
        spec_firstMatch_def split: json.splits)


section \<open>Action dispatcher: missing credentials\<close>

text \<open>
  C5. When the store has no account for the id, or the account found has no (truthy)
  access token, \<open>sendDirectMessage\<close> and \<open>replyToComment\<close> both return
  \<^verbatim>\<open>{success: false, error: "No access token"}\<close> and make no outbound call.
\<close>

theorem no_access_token_fails_fast:
  assumes "case findAccount instagramId w of
             None \<Rightarrow> True
           | Some acct \<Rightarrow> \<not> truthy (accessToken (snd acct))"
  shows "fst (sendDirectMessage instagramId recipient msg w) = Failure (JStr ''No access token'')
       \<and> outbound (snd (sendDirectMessage instagramId recipient msg w)) = outbound w
       \<and> fst (replyToComment cid reply instagramId w) = Failure (JStr ''No access token'')
       \<and> outbound (snd (replyToComment cid reply instagramId w)) = outbound w"
  using assms
  by (auto simp: sendDirectMessage_def replyToComment_def findAccount_def Let_def
           split: option.splits)

theorem no_access_token_fails_fast_witness:
  "findAccount (JStr ''acct1'') shopNoToken
     = Some (6, \<lparr>acc_instagramId = JStr ''acct1'', accessToken = JUndefined\<rparr>)
   \<and> fst (sendDirectMessage (JStr ''acct1'') (JStr ''u1'') ''hello'' shopNoToken)
       = Failure (JStr ''No access token'')
   \<and> outbound (snd (sendDirectMessage (JStr ''acct1'') (JStr ''u1'') ''hello'' shopNoToken)) = []
   \<and> fst (replyToComment (JStr ''c1'') ''hello'' (JStr ''acct1'') shopNoToken)
       = Failure (JStr ''No access token'')
   \<and> outbound (snd (replyToComment (JStr ''c1'') ''hello'' (JStr ''acct1'') shopNoToken)) = []"
proof -
  have found: "findAccount (JStr ''acct1'') shopNoToken
                 = Some (6, \<lparr>acc_instagramId = JStr ''acct1'', accessToken = JUndefined\<rparr>)"
    by (simp add: findAccount_def shopNoToken_def shop_def fieldMatches_def)
  have out: "outbound shopNoToken = []"
    by (simp add: shopNoToken_def shop_def)
  show ?thesis
    using no_access_token_fails_fast
            [of "JStr ''acct1''" shopNoToken "JStr ''u1''" "''hello''" "JStr ''c1''" "''hello''"]
    by (simp add: found out)
qed

section \<open>Event store: fetching pending events\<close>

lemma fetchPending_sorted: "sorted (map (\<lambda>ev. e_createdAt (snd ev)) (fetchPending n w))"
proof -
  have "sorted (take n (map (\<lambda>ev. e_createdAt (snd ev))
          (sort_key (\<lambda>ev. e_createdAt (snd ev))
             (filter (\<lambda>ev. processed (snd ev) = False) (webhook_events w)))))"
    by (rule sorted_wrt_take) simp
  then show ?thesis unfolding fetchPending_def by (simp add: take_map)
qed

lemma fetchPending_set:
  "set (fetchPending n w) \<subseteq> {ev \<in> set (webhook_events w). \<not> processed (snd ev)}"
  unfolding fetchPending_def using set_take_subset[of n] by fastforce

lemma fetchPending_oldest:
  assumes "ev \<in> set (webhook_events w)" and "\<not> processed (snd ev)"
    and "ev \<notin> set (fetchPending n w)" and "r \<in> set (fetchPending n w)"
  shows "e_createdAt (snd r) \<le> e_createdAt (snd ev)"
proof -
  let ?f = "\<lambda>ev. e_createdAt (snd ev)"
  let ?xs = "sort_key ?f (filter (\<lambda>ev. processed (snd ev) = False) (webhook_events w))"
  have "ev \<in> set ?xs" using assms(1,2) by simp
  moreover have "set ?xs = set (take n ?xs) \<union> set (drop n ?xs)"
    by (metis append_take_drop_id set_append)
  ultimately have later: "ev \<in> set (drop n ?xs)"
    using assms(3) unfolding fetchPending_def by blast
  have "sorted (map ?f (take n ?xs @ drop n ?xs))" by simp
  then have "\<forall>a\<in>set (take n ?xs). \<forall>b\<in>set (drop n ?xs). ?f a \<le> ?f b"
    unfolding map_append sorted_append by auto
  then show ?thesis using later assms(4) unfolding fetchPending_def by blast
qed

text \<open>
  C6. Fetching pending events returns stored events with \<^verbatim>\<open>processed\<close> false only,
  in ascending order of creation time, at most as many as the limit, and the ones left
  out are no older than the ones returned; the reconciliation endpoint works on the
  result for the limit 50.
\<close>

theorem pending_events_oldest_first:
  "(\<forall>ev\<in>set (fetchPending n w). ev \<in> set (webhook_events w) \<and> processed (snd ev) = False)
   \<and> sorted (map (\<lambda>ev. e_createdAt (snd ev)) (fetchPending n w))
   \<and> length (fetchPending n w) \<le> n
   \<and> (\<forall>ev\<in>set (webhook_events w). \<forall>r\<in>set (fetchPending n w).
        \<not> processed (snd ev) \<and> ev \<notin> set (fetchPending n w)
          \<longrightarrow> e_createdAt (snd r) \<le> e_createdAt (snd ev))
   \<and> snd (processPending w) = fold sweepEvent (fetchPending 50 w) w
   \<and> length (fetchPending 50 w) \<le> 50"
proof -
  have "\<forall>ev\<in>set (fetchPending n w). ev \<in> set (webhook_events w) \<and> processed (snd ev) = False"
    using fetchPending_set[of n w] by auto
  moreover have "length (fetchPending n w) \<le> n" "length (fetchPending 50 w) \<le> 50"
    by (simp_all add: fetchPending_def)
  moreover have "snd (processPending w) = fold sweepEvent (fetchPending 50 w) w"
    by (simp add: processPending_def Let_def)
  ultimately show ?thesis
    using fetchPending_sorted[of n w] fetchPending_oldest[of _ w n] by blast
qed

theorem pending_events_oldest_first_witness:
  "fetchPending 50 backlog = [(9, event 5 False (JObj [])), (7, event 7 False (JObj []))]
   \<and> sorted (map (\<lambda>ev. e_createdAt (snd ev)) (fetchPending 50 backlog))
   \<and> length (fetchPending 50 backlog) \<le> 50
   \<and> fetchPending 1 backlog = [(9, event 5 False (JObj []))]
   \<and> e_createdAt (snd (hd (fetchPending 1 backlog))) \<le> e_createdAt (event 7 False (JObj []))"
proof -
  have all: "fetchPending 50 backlog = [(9, event 5 False (JObj [])), (7, event 7 False (JObj []))]"
    by (simp add: fetchPending_def backlog_def shop_def event_def)
  have one: "fetchPending 1 backlog = [(9, event 5 False (JObj []))]"
    by (simp add: fetchPending_def backlog_def shop_def event_def)
  have stored: "(7, event 7 False (JObj [])) \<in> set (webhook_events backlog)"
    by (simp add: backlog_def)
  have "e_createdAt (snd (hd (fetchPending 1 backlog))) \<le> e_createdAt (event 7 False (JObj []))"
    using pending_events_oldest_first[of 1 backlog] stored unfolding one
    by (auto simp: event_def)
  then show ?thesis
    using pending_events_oldest_first[of 50 backlog] one by (simp add: all)
qed

section \<open>Automation matcher: first match wins\<close>

lemma newlyInvoked_append: "invoked w' = invoked w @ xs \<Longrightarrow> newlyInvoked w w' = xs"
  by (simp add: newlyInvoked_def)

lemma loaded_comment_rules:
  "findAutomations (JStr ''acct1'') ''comment'' (shop\<lparr>comments := cs\<rparr>) =
     [(1, rule ''comment'' [''price''] ''Here is our price list''),
      (2, rule ''comment'' [''list'', ''price''] ''Second rule''),
      (3, rule ''comment'' [[]] ''Thanks for your comment'')]"
  by (simp add: findAutomations_def shop_def rule_def fieldMatches_def)

lemma loaded_message_rules:
  "findAutomations (JStr ''acct1'') ''message'' shop =
     [(4, rule ''message'' [''price''] ''Here is our price list''),
      (5, rule ''message'' [[]] ''Thanks for writing'')]"
  by (simp add: findAutomations_def shop_def rule_def fieldMatches_def)

text \<open>
  C2. Whatever automations are loaded for the account and kind, processing an event
  calls the dispatcher at most once and makes at most one outbound call; for a text that
  is a string, the dispatcher call is made for
  the first loaded automation one of whose keywords, lowercased, is a substring of the
  lowercased text, and no call is made when there is none. Later automations that
  would match as well are not reached.
\<close>

theorem first_match_wins:
  "(c_text (snd c) = JStr s \<longrightarrow>
      newlyInvoked w (processCommentAutomation p i c w) =
        (case spec_firstMatch s (findAutomations i ''comment'' w) of
           None \<Rightarrow> []
         | Some a \<Rightarrow> [ReplyToComment (commentId (snd c)) (replyMessage (snd a)) i]))
   \<and> (m_text (snd m) = JStr s' \<longrightarrow>
      newlyInvoked w (processMessageAutomation p i m w) =
        (case spec_firstMatch s' (findAutomations i ''message'' w) of
           None \<Rightarrow> []
         | Some a \<Rightarrow> [SendDirectMessage i (senderId (snd m)) (replyMessage (snd a))]))
   \<and> length (newlyInvoked w (processCommentAutomation p i c w)) \<le> 1
   \<and> length (newlyInvoked w (processMessageAutomation p i m w)) \<le> 1
   \<and> length (outbound (processCommentAutomation p i c w)) \<le> Suc (length (outbound w))
   \<and> length (outbound (processMessageAutomation p i m w)) \<le> Suc (length (outbound w))"
proof -
  have "length (outbound (processCommentAutomation p i c w)) \<le> Suc (length (outbound w))"
    by (simp add: processCommentAutomation_def Let_def commentLoop_outbound split: json.splits)
  moreover have "length (outbound (processMessageAutomation p i m w)) \<le> Suc (length (outbound w))"
    by (simp add: processMessageAutomation_def Let_def messageLoop_outbound split: json.splits)
  moreover have "length (newlyInvoked w (processCommentAutomation p i c w)) \<le> 1"
    by (simp add: newlyInvoked_def processCommentAutomation_invoked
          split: json.splits option.splits)
  moreover have "length (newlyInvoked w (processMessageAutomation p i m w)) \<le> 1"
    by (simp add: newlyInvoked_def processMessageAutomation_invoked
          split: json.splits option.splits)
  ultimately show ?thesis
    by (simp add: newlyInvoked_def processCommentAutomation_invoked
          processMessageAutomation_invoked)
qed

theorem first_match_wins_witness:
  "c_text (snd (30, comment ''c1'' ''Price list?'')) = JStr ''Price list?''
   \<and> newlyInvoked shop
        (processCommentAutomation RenderServer (JStr ''acct1'') (30, comment ''c1'' ''Price list?'') shop)
      = [ReplyToComment (JStr ''c1'') ''Here is our price list'' (JStr ''acct1'')]
   \<and> m_text (snd (31, directMessage ''PRICE?'')) = JStr ''PRICE?''
   \<and> newlyInvoked shop
        (processMessageAutomation RenderServer (JStr ''acct1'') (31, directMessage ''PRICE?'') shop)
      = [SendDirectMessage (JStr ''acct1'') (JStr ''u1'') ''Here is our price list'']"
proof -
  have c: "spec_firstMatch ''Price list?'' (findAutomations (JStr ''acct1'') ''comment'' shop)
             = Some (1, rule ''comment'' [''price''] ''Here is our price list'')"
    using loaded_comment_rules[of "comments shop"]
    by (simp add: spec_firstMatch_def rule_def toLowerCase_def lowerChar_def)
  have m: "spec_firstMatch ''PRICE?'' (findAutomations (JStr ''acct1'') ''message'' shop)
             = Some (4, rule ''message'' [''price''] ''Here is our price list'')"
    by (simp add: loaded_message_rules spec_firstMatch_def rule_def toLowerCase_def lowerChar_def)
  show ?thesis
    using first_match_wins[where c = "(30, comment ''c1'' ''Price list?'')" and s = "''Price list?''"
            and m = "(31, directMessage ''PRICE?'')" and s' = "''PRICE?''"
            and w = shop and p = RenderServer and i = "JStr ''acct1''"]
    by (simp add: c m comment_def directMessage_def rule_def)
qed





section \<open>Dispatch failure on the comment path\<close>

text \<open>
  C9. When the text of a comment is a string, and the reply for the first automation
  that matches it fails, \<open>processCommentAutomation\<close> leaves the \<^verbatim>\<open>comments\<close>
  collection as it was (the stored comment keeps \<^verbatim>\<open>isProcessed\<close> false and gets no
  other field) and adds no record to \<^verbatim>\<open>automation_logs\<close>.
\<close>

theorem failed_reply_changes_nothing:
  assumes "c_text (snd c) = JStr s"
    and "find (\<lambda>a. hasKeyword (toLowerCase s) (keywordsOf (snd a)))
           (findAutomations i ''comment'' w) = Some a"
    and "\<not> succeeded (fst (replyToComment (commentId (snd c)) (replyMessage (snd a)) i w))"
  shows "comments (processCommentAutomation p i c w) = comments w
       \<and> automation_logs (processCommentAutomation p i c w) = automation_logs w"
proof -
  have "findAutomations i ''comment'' w \<noteq> []"
    using assms(2) by auto
  then have "processCommentAutomation p i c w =
               commentLoop p i c (toLowerCase s) (findAutomations i ''comment'' w) w"
    using assms(1) by (simp add: processCommentAutomation_def Let_def)
  then show ?thesis
    using commentLoop_failure[OF assms(2,3)] by simp
qed

theorem failed_reply_changes_nothing_witness:
  "succeeded (fst (replyToComment (JStr ''c2'') ''Here is our price list'' (JStr ''acct1'')
                     (shop\<lparr>comments := [(30, comment ''c2'' ''price?'')]\<rparr>))) = False
   \<and> comments (processCommentAutomation RenderServer (JStr ''acct1'') (30, comment ''c2'' ''price?'')
                  (shop\<lparr>comments := [(30, comment ''c2'' ''price?'')]\<rparr>))
      = [(30, comment ''c2'' ''price?'')]
   \<and> automation_logs (processCommentAutomation RenderServer (JStr ''acct1'')
                         (30, comment ''c2'' ''price?'')
                         (shop\<lparr>comments := [(30, comment ''c2'' ''price?'')]\<rparr>))
      = []"
proof -
  let ?w = "shop\<lparr>comments := [(30, comment ''c2'' ''price?'')]\<rparr>"
  let ?a = "(1 :: nat, rule ''comment'' [''price''] ''Here is our price list'')"
  have str: "c_text (snd (30 :: nat, comment ''c2'' ''price?'')) = JStr ''price?''"
    by (simp add: comment_def)
  have first: "find (\<lambda>a. hasKeyword (toLowerCase ''price?'') (keywordsOf (snd a)))
                 (findAutomations (JStr ''acct1'') ''comment'' ?w) = Some ?a"
    by (simp add: loaded_comment_rules rule_def hasKeyword_def keywordsOf_def
          toLowerCase_def lowerChar_def)
  have fails: "succeeded (fst (replyToComment (JStr ''c2'') ''Here is our price list''
                                 (JStr ''acct1'') ?w)) = False"
    by (simp add: replyToComment_def findAccount_def fieldMatches_def shop_def fetch_def
          graphApi_def Let_def)
  have fails': "\<not> succeeded (fst (replyToComment (commentId (snd (30 :: nat, comment ''c2'' ''price?'')))
                                    (replyMessage (snd ?a)) (JStr ''acct1'') ?w))"
    using fails by (simp add: comment_def rule_def)
  have "automation_logs ?w = []" "comments ?w = [(30, comment ''c2'' ''price?'')]"
    by (simp_all add: shop_def)
  then show ?thesis
    using failed_reply_changes_nothing[OF str first fails', of RenderServer] fails by simp
qed

section \<open>Event normalizer: echoes\<close>

text \<open>
  C7. A messaging item without a message payload, or whose \<^verbatim>\<open>message.is_echo\<close> is
  truthy, is skipped by \<open>handleMessage\<close> without any effect: no record, no error log.
  No item of either kind (nor a nullish item) adds a record to \<^verbatim>\<open>messages\<close>; any
  other item adds exactly one, and a record added by \<open>handleMessage\<close> has
  \<^verbatim>\<open>isEcho\<close> false.
\<close>

theorem echo_is_never_stored:
  "(\<not> nullish item
      \<and> (\<not> truthy (get item ''message'') \<or> truthy (get (get item ''message'') ''is_echo''))
    \<longrightarrow> handleMessage p i item w = w)
   \<and> (nullish item \<or> \<not> truthy (get item ''message'')
        \<or> truthy (get (get item ''message'') ''is_echo'')
    \<longrightarrow> messages (handleMessage p i item w) = messages w)
   \<and> (\<exists>ms. messages (handleMessage p i item w) = messages w @ ms
           \<and> length ms \<le> 1 \<and> (\<forall>m\<in>set ms. isEcho (snd m) = False))"
  by (auto simp: handleMessage_def Let_def split_def insertMessage_def freshId_def
        processMessageAutomation_frame)

theorem echo_is_never_stored_witness:
  "handleMessage RenderServer (JStr ''acct1'') echoItem shop = shop
   \<and> map (\<lambda>m. isEcho (snd m)) (messages (handleMessage RenderServer (JStr ''acct1'') plainItem shop))
      = [False]"
proof -
  have skip: "handleMessage RenderServer (JStr ''acct1'') echoItem shop = shop"
    using echo_is_never_stored[of echoItem RenderServer "JStr ''acct1''" shop]
    by (simp add: echoItem_def)
  have "length (messages (handleMessage RenderServer (JStr ''acct1'') plainItem shop)) = 1"
    by (simp add: handleMessage_def plainItem_def Let_def split_def insertMessage_def freshId_def
          processMessageAutomation_frame orNow_def jsOr_def shop_def)
  then obtain m where one: "messages (handleMessage RenderServer (JStr ''acct1'') plainItem shop) = [m]"
    by (cases "messages (handleMessage RenderServer (JStr ''acct1'') plainItem shop)") auto
  have "messages shop = []" by (simp add: shop_def)
  then have "isEcho (snd m) = False"
    using echo_is_never_stored[of plainItem RenderServer "JStr ''acct1''" shop] one by auto
  then show ?thesis using skip one by simp
qed

section \<open>Which comments a run replies to\<close>

lemma repliedTo_append [simp]: "repliedTo (xs @ ys) = repliedTo xs @ repliedTo ys"
  by (induction xs rule: repliedTo.induct) auto

lemma replies_same: "invoked w' = invoked w \<Longrightarrow> replies A w w'"
  by (simp add: replies_def)

lemma replies_trans: "replies A w w1 \<Longrightarrow> replies A w1 w2 \<Longrightarrow> replies A w w2"
  by (auto simp: replies_def)

lemma replies_mono: "replies A w w' \<Longrightarrow> (\<And>c. A c \<Longrightarrow> B c) \<Longrightarrow> replies B w w'"
  by (auto simp: replies_def list_all_iff)

lemma synthetic_comment [simp]: "synthetic (JStr (''comment_'' @ s))"
  by (simp add: synthetic_def)

lemma handleMessage_replies: "replies A w (handleMessage p i item w)"
  by (auto simp: replies_def handleMessage_def Let_def split_def insertMessage_def freshId_def
        processMessageAutomation_invoked split: json.splits option.splits)

lemma processCommentAutomation_replies:
  assumes "invoked w5 = invoked w" and "A (commentId (snd c))"
  shows "replies A w (processCommentAutomation p i c w5)"
  using assms
  by (auto simp: replies_def processCommentAutomation_invoked split: json.splits option.splits)

lemma handleComment_replies:
  "replies (\<lambda>c. synthetic c \<or> c = explicitId cv) w (handleComment p i cv w)"
proof (cases "nullish cv")
  case True
  then show ?thesis by (simp add: handleComment_def Let_def replies_same)
next
  case False
  have cid: "synthetic (fst (orNow (jsOr (get cv ''id'') (get cv ''comment_id''))
                              (\<lambda>t. JStr (''comment_'' @ decimal t)) w))
             \<or> fst (orNow (jsOr (get cv ''id'') (get cv ''comment_id''))
                      (\<lambda>t. JStr (''comment_'' @ decimal t)) w) = explicitId cv"
    by (simp add: orNow_def explicitId_def split_def Let_def synthetic_def)
  show ?thesis
  proof (cases "truthy (jsOr (get cv ''text'') (JStr []))")
    case t: True
    show ?thesis
      using False t unfolding handleComment_def Let_def split_def
      by (simp add: insertComment_def freshId_def split_def Let_def del: append.simps)
         (rule processCommentAutomation_replies, simp_all add: cid del: append.simps)
  next
    case f: False
    show ?thesis
      using False f unfolding handleComment_def Let_def split_def
      by (simp add: insertComment_def freshId_def split_def Let_def replies_same)
  qed
qed

lemma fold_handleMessage_replies: "replies A w (fold (handleMessage p i) ms w)"
proof (induction ms arbitrary: w)
  case Nil
  then show ?case by (simp add: replies_same)
next
  case (Cons m ms)
  show ?case
    using replies_trans[OF handleMessage_replies Cons.IH] by simp
qed

lemma changesLoop_replies:
  "replies (\<lambda>c. synthetic c \<or> c \<in> set (map (\<lambda>change. explicitId (get change ''value'')) (filter isCommentChange cs)))
     w (snd (changesLoop p i cs w))"
proof (induction cs arbitrary: w)
  case Nil
  then show ?case by (simp add: replies_same)
next
  case (Cons ch cs)
  let ?A = "\<lambda>c. synthetic c \<or> c \<in> set (map (\<lambda>change. explicitId (get change ''value''))
                                      (filter isCommentChange (ch # cs)))"
  show ?case
  proof (cases "nullish ch")
    case True
    then show ?thesis by (simp add: replies_same)
  next
    case False
    show ?thesis
    proof (cases "isCommentChange ch")
      case True
      have a: "replies ?A w (handleComment p i (get ch ''value'') w)"
        by (rule replies_mono[OF handleComment_replies]) (use True in auto)
      have b: "replies ?A (handleComment p i (get ch ''value'') w)
                 (snd (changesLoop p i cs (handleComment p i (get ch ''value'') w)))"
        by (rule replies_mono[OF Cons.IH]) auto
      show ?thesis
        using replies_trans[OF a b] True False by (simp add: isCommentChange_def)
    next
      case nc: False
      have "replies ?A w (snd (changesLoop p i cs w))"
        by (rule replies_mono[OF Cons.IH]) auto
      then show ?thesis using nc False by (simp add: isCommentChange_def)
    qed
  qed
qed

lemma processEntry_replies:
  "replies (\<lambda>c. synthetic c \<or> c \<in> set (entryIds p entry)) w (processEntry p entry w)"
proof (cases "nullish entry")
  case True
  then show ?thesis by (simp add: processEntry_def entryError_def replies_same)
next
  case False
  let ?A = "\<lambda>c. synthetic c \<or> c \<in> set (entryIds p entry)"
  let ?i = "get entry ''id''"
  define w1 where "w1 = (case get entry ''messaging'' of
                           JArr ms \<Rightarrow> fold (handleMessage p ?i) ms w | v \<Rightarrow> w)"
  define r where "r = (case get entry ''changes'' of
                         JArr cs \<Rightarrow> changesLoop p ?i cs w1 | v \<Rightarrow> (None, w1))"
  have s1: "replies ?A w w1"
    unfolding w1_def by (cases "get entry ''messaging''") (simp_all add: replies_same fold_handleMessage_replies)
  have s2: "replies ?A w1 (snd r)"
  proof (cases "get entry ''changes''")
    case (JArr cs)
    have "snd r = snd (changesLoop p ?i cs w1)"
      by (simp add: r_def JArr)
    moreover have "replies ?A w1 (snd (changesLoop p ?i cs w1))"
      by (rule replies_mono[OF changesLoop_replies]) (auto simp: entryIds_def JArr)
    ultimately show ?thesis by simp
  qed (simp_all add: r_def replies_same)
  have pe: "processEntry p entry w =
              (case fst r of
                 Some e \<Rightarrow> entryError p entry e (snd r)
               | None \<Rightarrow>
                   if p = AutomationProcessor \<and> isCommentChange entry
                   then handleComment p ?i (get entry ''value'') (snd r)
                   else snd r)"
    using False unfolding r_def w1_def
    by (auto simp: processEntry_def Let_def split_def isCommentChange_def split: option.splits)
  have s3: "replies ?A (snd r) (processEntry p entry w)"
  proof (cases "fst r")
    case None
    show ?thesis
    proof (cases "p = AutomationProcessor \<and> isCommentChange entry")
      case True
      have "replies ?A (snd r) (handleComment p ?i (get entry ''value'') (snd r))"
        by (rule replies_mono[OF handleComment_replies]) (use True in \<open>auto simp: entryIds_def\<close>)
      then show ?thesis unfolding pe None using True by simp
    next
      case nf: False
      show ?thesis unfolding pe None using nf by (auto simp: replies_same)
    qed
  next
    case (Some e)
    show ?thesis unfolding pe Some by (simp add: entryError_def replies_same)
  qed
  show ?thesis using replies_trans[OF replies_trans[OF s1 s2] s3] .
qed

lemma recordFailure_fields [simp]:
  "messages (recordFailure ev e w) = messages w"
  "comments (recordFailure ev e w) = comments w"
  "invoked (recordFailure ev e w) = invoked w"
  "outbound (recordFailure ev e w) = outbound w"
  by (simp_all add: recordFailure_def split_def Let_def)

lemma fold_processEntry_replies:
  "replies (\<lambda>c. synthetic c \<or> c \<in> set (concat (map (entryIds p) es))) w (fold (processEntry p) es w)"
proof (induction es arbitrary: w)
  case Nil
  then show ?case by (simp add: replies_same)
next
  case (Cons entry es)
  let ?A = "\<lambda>c. synthetic c \<or> c \<in> set (concat (map (entryIds p) (entry # es)))"
  have a: "replies ?A w (processEntry p entry w)"
    by (rule replies_mono[OF processEntry_replies]) auto
  have b: "replies ?A (processEntry p entry w) (fold (processEntry p) es (processEntry p entry w))"
    by (rule replies_mono[OF Cons.IH]) auto
  show ?case using replies_trans[OF a b] by simp
qed

lemma processWebhookEntries_replies:
  assumes "processWebhookEntries p entries w = Inr w'"
  shows "replies (\<lambda>c. synthetic c \<or> c \<in> set (carriedIds p entries)) w w'"
  using assms fold_processEntry_replies[of p _ w]
  by (auto simp: processWebhookEntries_def carriedIds_def split: option.splits)

lemma sweepEvent_replies:
  "replies (\<lambda>c. synthetic c \<or> c \<in> set (eventIds ev)) w (sweepEvent ev w)"
proof (cases "processWebhookEntries RenderServer (get (e_data (snd ev)) ''entry'') w")
  case (Inl e)
  then show ?thesis by (simp add: sweepEvent_def Let_def replies_same)
next
  case (Inr w1)
  have "replies (\<lambda>c. synthetic c \<or> c \<in> set (eventIds ev)) w w1"
    using processWebhookEntries_replies[OF Inr] by (simp add: eventIds_def)
  then have "replies (\<lambda>c. synthetic c \<or> c \<in> set (eventIds ev)) w
               (snd (dateNow w1)\<lparr>webhook_events := evs\<rparr>)" for evs
    by (simp add: replies_def)
  then show ?thesis using Inr by (simp add: sweepEvent_def Let_def split_def replies_same)
qed

lemma fold_sweepEvent_replies:
  "replies (\<lambda>c. synthetic c \<or> (\<exists>ev\<in>set evs. c \<in> set (eventIds ev))) w (fold sweepEvent evs w)"
proof (induction evs arbitrary: w)
  case Nil
  then show ?case by (simp add: replies_same)
next
  case (Cons ev evs)
  let ?A = "\<lambda>c. synthetic c \<or> (\<exists>x\<in>set (ev # evs). c \<in> set (eventIds x))"
  have a: "replies ?A w (sweepEvent ev w)"
    by (rule replies_mono[OF sweepEvent_replies]) auto
  have b: "replies ?A (sweepEvent ev w) (fold sweepEvent evs (sweepEvent ev w))"
    by (rule replies_mono[OF Cons.IH]) auto
  show ?case using replies_trans[OF a b] by simp
qed

lemmas model_defs =
  processPending_def fetchPending_def sweepEvent_def recordFailure_def
  processWebhookEntries_def processEntry_def entryError_def handleComment_def handleMessage_def
  orNow_def jsOr_def optGet_def dateNow_def insertComment_def insertMessage_def freshId_def
  logEventIn_def logEvent_def processCommentAutomation_def processMessageAutomation_def
  findAutomations_def fieldMatches_def hasKeyword_def keywordsOf_def toLowerCase_def
  lowerChar_def replyToComment_def sendDirectMessage_def findAccount_def fetch_def Let_def
  logAutomationTrigger_def byId_def

lemmas sample_defs =
  shop_def rule_def graphApi_def event_def commentEnvelope_def comment_def

text \<open>
  C1 (as amended). A sweep replies only to comments carried by the pending webhook events
  it fetched. So a comment whose id is not synthetic, and which is carried only by events
  already marked processed, is not replied to by the sweep. The guard is the
  \<^verbatim>\<open>processed\<close> flag of the webhook event: the \<^verbatim>\<open>isProcessed\<close> flag and the
  \<^verbatim>\<open>replyId\<close> of the comment record are not read.
\<close>

theorem sweep_replies_only_for_pending_events:
  assumes "\<not> synthetic cid"
    and "\<forall>ev\<in>set (webhook_events w). cid \<in> set (eventIds ev) \<longrightarrow> processed (snd ev)"
  shows "cid \<notin> set (repliedTo (newlyInvoked w (snd (processPending w))))"
proof
  assume again: "cid \<in> set (repliedTo (newlyInvoked w (snd (processPending w))))"
  obtain xs where xs: "invoked (fold sweepEvent (fetchPending 50 w) w) = invoked w @ xs"
    and ok: "list_all (\<lambda>c. synthetic c \<or> (\<exists>ev\<in>set (fetchPending 50 w). c \<in> set (eventIds ev)))
               (repliedTo xs)"
    using fold_sweepEvent_replies[of "fetchPending 50 w" w] unfolding replies_def by blast
  have "newlyInvoked w (snd (processPending w)) = xs"
    using xs by (simp add: newlyInvoked_def processPending_def Let_def)
  then have "\<exists>ev\<in>set (fetchPending 50 w). cid \<in> set (eventIds ev)"
    using again ok assms(1) by (auto simp: list_all_iff)
  then obtain ev where "ev \<in> set (fetchPending 50 w)" and "cid \<in> set (eventIds ev)"
    by blast
  then show False
    using assms(2) fetchPending_set[of 50 w] by auto
qed

theorem sweep_replies_only_for_pending_events_witness:
  "\<not> synthetic (JStr ''c1'')
   \<and> eventIds (7, event 5 True (commentEnvelope ''c1'' ''price'')) = [JStr ''c1'']
   \<and> JStr ''c1'' \<notin> set (repliedTo (newlyInvoked settled (snd (processPending settled))))"
proof -
  have ids: "eventIds (7, event 5 True (commentEnvelope ''c1'' ''price'')) = [JStr ''c1'']"
    by (simp add: eventIds_def carriedIds_def entryIds_def isCommentChange_def explicitId_def
          jsOr_def event_def commentEnvelope_def)
  have syn: "\<not> synthetic (JStr ''c1'')"
    by (simp add: synthetic_def)
  have evs: "webhook_events settled = [(7, event 5 True (commentEnvelope ''c1'' ''price''))]"
    by (simp add: settled_def)
  have "\<forall>ev\<in>set (webhook_events settled). JStr ''c1'' \<in> set (eventIds ev) \<longrightarrow> processed (snd ev)"
    unfolding evs by (simp add: event_def)
  from sweep_replies_only_for_pending_events[OF syn this] show ?thesis
    using ids syn by simp
qed

text \<open>
  C1 as stated fails. In \<open>answered\<close> the record of comment \<^verbatim>\<open>c1\<close> has
  \<^verbatim>\<open>isProcessed\<close> true and a \<^verbatim>\<open>replyId\<close>, and the sweep replies to \<^verbatim>\<open>c1\<close> again.
\<close>

theorem answered_comment_is_replied_again:
  "map (\<lambda>c. (commentId (snd c), isProcessed (snd c), replyId (snd c))) (comments answered)
     = [(JStr ''c1'', True, Some (JStr ''reply0''))]
   \<and> newlyInvoked answered (snd (processPending answered))
     = [ReplyToComment (JStr ''c1'') ''Here is our price list'' (JStr ''acct1'')]"
  by (simp add: newlyInvoked_def answered_def model_defs sample_defs)

section \<open>Reconciliation: what the sweep records on an event\<close>

lemma handleMessage_events: "webhook_events (handleMessage p i item w) = webhook_events w"
  by (simp add: handleMessage_def Let_def split_def insertMessage_def freshId_def
        processMessageAutomation_frame)

lemma handleComment_events: "webhook_events (handleComment p i cv w) = webhook_events w"
  by (simp add: handleComment_def Let_def split_def insertComment_def freshId_def
        processCommentAutomation_frame)


lemma handleMessage_ids:
  "map fst (messages (handleMessage p i item w)) =
     map fst (messages w) @
     (if nullish item \<or> \<not> truthy (get item ''message'')
         \<or> truthy (get (get item ''message'') ''is_echo'') then [] else [nextId w])"
  by (simp add: handleMessage_def Let_def split_def insertMessage_def freshId_def
        processMessageAutomation_frame)

lemma fold_handleMessage_events:
  "webhook_events (fold (handleMessage p i) ms w) = webhook_events w"
  by (induction ms arbitrary: w) (simp_all add: handleMessage_events)

lemma changesLoop_events: "webhook_events (snd (changesLoop p i cs w)) = webhook_events w"
  by (induction cs arbitrary: w) (simp_all add: handleComment_events)

lemma processEntry_events: "webhook_events (processEntry p entry w) = webhook_events w"
  by (simp add: processEntry_def entryError_def Let_def split_def fold_handleMessage_events
        changesLoop_events handleComment_events split: json.splits option.splits)

lemma fold_processEntry_events:
  "webhook_events (fold (processEntry p) es w) = webhook_events w"
  by (induction es arbitrary: w) (simp_all add: processEntry_events)

lemma processWebhookEntries_events:
  "processWebhookEntries p entries w = Inr w' \<Longrightarrow> webhook_events w' = webhook_events w"
  by (auto simp: processWebhookEntries_def fold_processEntry_events split: option.splits)

lemma map_of_updateOne:
  "map_of (updateOne (byId i) f xs) j =
     (if j = i then map_option f (map_of xs i) else map_of xs j)"
  by (induction xs) (auto simp: byId_def)

lemma sweepEvent_lookup_other:
  "j \<noteq> fst ev \<Longrightarrow> map_of (webhook_events (sweepEvent ev w)) j = map_of (webhook_events w) j"
  by (auto simp: sweepEvent_def recordFailure_def Let_def split_def map_of_updateOne
        processWebhookEntries_events split: sum.splits)

lemma sweepEvent_lookup_thrown:
  assumes "sweepThrows ev = Some e"
  shows "map_of (webhook_events (sweepEvent ev w)) (fst ev) =
           map_option (\<lambda>d. d\<lparr>e_error := Some (message e), processedAt := Some (clock w (ticks w))\<rparr>)
             (map_of (webhook_events w) (fst ev))"
  using assms
  by (auto simp: sweepThrows_def isEnvelope_def sweepEvent_def recordFailure_def Let_def split_def
        map_of_updateOne processWebhookEntries_def dateNow_def split: if_splits option.splits)

lemma sweepEvent_lookup_done:
  assumes "sweepThrows ev = None" and "isEnvelope (e_data (snd ev))"
  shows "\<exists>t. map_of (webhook_events (sweepEvent ev w)) (fst ev) =
           map_option (\<lambda>d. d\<lparr>processed := True, processedAt := Some t\<rparr>)
             (map_of (webhook_events w) (fst ev))"
proof -
  from assms obtain es where es: "iterate (get (e_data (snd ev)) ''entry'') = Some es"
    and nn: "\<not> nullish (e_data (snd ev))"
    by (auto simp: sweepThrows_def Let_def split: if_splits)
  let ?w1 = "fold (processEntry RenderServer) es w"
  have "sweepEvent ev w =
          (snd (dateNow ?w1))\<lparr>webhook_events :=
             updateOne (byId (fst ev)) (\<lambda>d. d\<lparr>processed := True, processedAt := Some (fst (dateNow ?w1))\<rparr>)
               (webhook_events (snd (dateNow ?w1)))\<rparr>"
    using assms(2) es nn
    by (simp add: sweepEvent_def isEnvelope_def processWebhookEntries_def Let_def split_def)
  then show ?thesis
    by (auto simp: map_of_updateOne fold_processEntry_events)
qed

lemma fold_sweepEvent_lookup_other:
  "j \<notin> fst ` set evs \<Longrightarrow>
     map_of (webhook_events (fold sweepEvent evs w)) j = map_of (webhook_events w) j"
  by (induction evs arbitrary: w) (auto simp: sweepEvent_lookup_other)

lemma fold_sweepEvent_lookup:
  assumes "distinct (map fst evs)" and "ev \<in> set evs"
  obtains w0 where
    "map_of (webhook_events (fold sweepEvent evs w)) (fst ev)
       = map_of (webhook_events (sweepEvent ev w0)) (fst ev)"
    and "map_of (webhook_events w0) (fst ev) = map_of (webhook_events w) (fst ev)"
proof -
  from assms(2) obtain pre post where split: "evs = pre @ ev # post"
    by (auto dest: split_list)
  have a: "fst ev \<notin> fst ` set pre" and b: "fst ev \<notin> fst ` set post"
    using assms(1) unfolding split by auto
  have "map_of (webhook_events (fold sweepEvent evs w)) (fst ev)
          = map_of (webhook_events (sweepEvent ev (fold sweepEvent pre w))) (fst ev)"
    unfolding split by (simp add: fold_sweepEvent_lookup_other[OF b])
  moreover have "map_of (webhook_events (fold sweepEvent pre w)) (fst ev)
                   = map_of (webhook_events w) (fst ev)"
    by (rule fold_sweepEvent_lookup_other[OF a])
  ultimately show ?thesis using that by blast
qed

lemma fetchPending_distinct:
  assumes "distinct (map fst (webhook_events w))"
  shows "distinct (map fst (fetchPending n w))"
proof -
  have sub: "set (fetchPending n w) \<subseteq> set (webhook_events w)"
    using fetchPending_set[of n w] by auto
  have "distinct (webhook_events w)" and inj: "inj_on fst (set (webhook_events w))"
    using assms by (simp_all add: distinct_map)
  then have "distinct (fetchPending n w)"
    by (simp add: fetchPending_def)
  moreover have "inj_on fst (set (fetchPending n w))"
    using inj sub by (rule inj_on_subset)
  ultimately show ?thesis by (simp add: distinct_map)
qed

text \<open>
  C3 (as amended). With unique \<^verbatim>\<open>_id\<close>s in \<^verbatim>\<open>webhook_events\<close>, after a sweep every
  fetched event whose processing threw (no data, or an \<^verbatim>\<open>entry\<close> that cannot be
  iterated) has \<^verbatim>\<open>error\<close> and \<^verbatim>\<open>processedAt\<close> set and \<^verbatim>\<open>processed\<close> still false,
  and every fetched Instagram envelope whose processing did not throw is marked
  processed with its \<^verbatim>\<open>error\<close> field untouched, whatever the outcome of the replies
  sent for it.
\<close>

theorem sweep_records_thrown_failures:
  assumes "distinct (map fst (webhook_events w))" and "ev \<in> set (fetchPending 50 w)"
  shows "(\<forall>e. sweepThrows ev = Some e \<longrightarrow>
            (\<exists>d. map_of (webhook_events (snd (processPending w))) (fst ev) = Some d
                 \<and> e_error d = Some (message e) \<and> processedAt d \<noteq> None
                 \<and> processed d = False \<and> e_data d = e_data (snd ev)))
       \<and> (sweepThrows ev = None \<and> isEnvelope (e_data (snd ev)) \<longrightarrow>
            (\<exists>d. map_of (webhook_events (snd (processPending w))) (fst ev) = Some d
                 \<and> e_error d = e_error (snd ev) \<and> processedAt d \<noteq> None
                 \<and> processed d = True \<and> e_data d = e_data (snd ev)))"
proof -
  have stored: "map_of (webhook_events w) (fst ev) = Some (snd ev)" and pending: "processed (snd ev) = False"
    using assms fetchPending_set[of 50 w] by (auto intro!: map_of_is_SomeI)
  obtain w0 where
    run: "map_of (webhook_events (snd (processPending w))) (fst ev)
            = map_of (webhook_events (sweepEvent ev w0)) (fst ev)"
    and before: "map_of (webhook_events w0) (fst ev) = Some (snd ev)"
    using fold_sweepEvent_lookup[OF fetchPending_distinct[OF assms(1)] assms(2), of w] stored
    by (auto simp: processPending_def Let_def)
  have "\<exists>d. map_of (webhook_events (snd (processPending w))) (fst ev) = Some d
           \<and> e_error d = Some (message e) \<and> processedAt d \<noteq> None
           \<and> processed d = False \<and> e_data d = e_data (snd ev)"
    if "sweepThrows ev = Some e" for e
    using sweepEvent_lookup_thrown[OF that, of w0] run before pending by simp
  moreover have "\<exists>d. map_of (webhook_events (snd (processPending w))) (fst ev) = Some d
           \<and> e_error d = e_error (snd ev) \<and> processedAt d \<noteq> None
           \<and> processed d = True \<and> e_data d = e_data (snd ev)"
    if "sweepThrows ev = None" and "isEnvelope (e_data (snd ev))"
    using sweepEvent_lookup_done[OF that, of w0] run before by auto
  ultimately show ?thesis by blast
qed

theorem sweep_records_thrown_failures_witness:
  "(\<exists>d. map_of (webhook_events (snd (processPending broken))) 8 = Some d
        \<and> e_error d = Some ''entries is not iterable'' \<and> processedAt d \<noteq> None
        \<and> processed d = False)
   \<and> (\<exists>d. map_of (webhook_events (snd (processPending broken))) 9 = Some d
        \<and> e_error d = None \<and> processedAt d \<noteq> None \<and> processed d = True)"
proof -
  let ?bad = "(8 :: nat, event 2 False (JObj [(''object'', JStr ''instagram''), (''entry'', JNum 5)]))"
  let ?good = "(9 :: nat, event 3 False (commentEnvelope ''c2'' ''price''))"
  have ids: "distinct (map fst (webhook_events broken))"
    by (simp add: broken_def)
  have fetched: "fetchPending 50 broken = [(7, event 1 False JNull), ?bad, ?good]"
    by (simp add: fetchPending_def broken_def shop_def event_def)
  have bad: "sweepThrows ?bad = Some (notIterable ''entries'')"
    by (simp add: sweepThrows_def isEnvelope_def event_def Let_def)
  have good: "sweepThrows ?good = None \<and> isEnvelope (e_data (snd ?good))"
    by (simp add: sweepThrows_def isEnvelope_def event_def commentEnvelope_def Let_def)
  have "?bad \<in> set (fetchPending 50 broken)" and "?good \<in> set (fetchPending 50 broken)"
    unfolding fetched by simp_all
  from sweep_records_thrown_failures[OF ids this(1)] sweep_records_thrown_failures[OF ids this(2)]
  show ?thesis
    using bad good by (auto simp: notIterable_def event_def)
qed

text \<open>
  C3 as stated fails in its scenario D. After the sweep of three pending comment events,
  of which one reply succeeds and two fail, the two events whose reply failed are marked
  processed with no error, and their comments have \<^verbatim>\<open>isProcessed\<close> false; nothing
  records the failure on an event or a comment.
\<close>

theorem failed_replies_are_marked_processed:
  "map (\<lambda>e. (processed (snd e), e_error (snd e))) (webhook_events (snd (processPending scenarioD)))
     = [(True, None), (True, None), (True, None)]
   \<and> map (\<lambda>c. (commentId (snd c), isProcessed (snd c))) (comments (snd (processPending scenarioD)))
     = [(JStr ''c1'', True), (JStr ''c2'', False), (JStr ''c3'', False)]"
proof -
  have events:
    "map (\<lambda>e. (processed (snd e), e_error (snd e))) (webhook_events (snd (processPending scenarioD)))
       = [(True, None), (True, None), (True, None)]"
    by (simp add: scenarioD_def processPending_def fetchPending_def sweepEvent_def
          processWebhookEntries_def Let_def split_def processEntry_events byId_def
          shop_def event_def commentEnvelope_def)
  have stored:
    "map (\<lambda>c. (commentId (snd c), isProcessed (snd c))) (comments (snd (processPending scenarioD)))
       = [(JStr ''c1'', True), (JStr ''c2'', False), (JStr ''c3'', False)]"
    by (simp add: scenarioD_def model_defs sample_defs)
  show ?thesis by (rule conjI[OF events stored])
qed

section \<open>Reconciliation: the sweep ingests again\<close>

lemma commentKey_updateOne [simp]:
  "map commentKey
     (updateOne P (\<lambda>d. d\<lparr>isProcessed := a, automationId := b, replyId := r, repliedAt := t\<rparr>) ds)
   = map commentKey ds"
  by (induction ds) (auto simp: commentKey_def)


























section \<open>Endpoints: envelopes that are not from Instagram\<close>

text \<open>
  \<^verbatim>\<open>POST /webhook/process\<close> of the render server rejects a body whose \<^verbatim>\<open>object\<close> is not
  \<^verbatim>\<open>"instagram"\<close> or whose \<^verbatim>\<open>entry\<close> is missing (or falsy): it answers 400 and leaves the
  whole state as it was.
\<close>

lemma webhook_process_rejects_other_envelopes:
  assumes "\<not> nullish webhookData"
    and "get webhookData ''object'' \<noteq> JStr ''instagram'' \<or> \<not> truthy (get webhookData ''entry'')"
  shows "webhookProcess webhookData w
           = (Http 400 (JObj [(''error'', JStr ''Invalid webhook format'')]), w)"
  using assms by (auto simp: webhookProcess_def Let_def)

text \<open>
  C8. An envelope whose \<^verbatim>\<open>object\<close> is not \<^verbatim>\<open>"instagram"\<close> is to be answered with 400 and
  without any persistence. The render server does so. The handler of
  \<^verbatim>\<open>POST /process-webhook\<close> in the automation processor has no such branch: for the
  envelope of a page it answers 200 with success, and it has by then marked the record
  of that envelope in \<^verbatim>\<open>webhook_logs\<close> as processed.
\<close>

theorem processor_accepts_a_page_envelope:
  "get pageEnvelope ''object'' = JStr ''page''
   \<and> webhookProcess pageEnvelope logged
       = (Http 400 (JObj [(''error'', JStr ''Invalid webhook format'')]), logged)
   \<and> fst (processWebhook ''s3cret'' (Some ''Bearer s3cret'') pageEnvelope logged)
       = Http 200 (JObj [(''success'', JBool True), (''message'', JStr ''Webhook processed successfully'')])
   \<and> map (\<lambda>l. wl_processed (snd l)) (webhook_logs logged) = [False]
   \<and> map (\<lambda>l. (wl_processed (snd l), processorResponse (snd l)))
        (webhook_logs (snd (processWebhook ''s3cret'' (Some ''Bearer s3cret'') pageEnvelope logged)))
       = [(True, Some ''Processing started'')]"
proof -
  have page: "get pageEnvelope ''object'' = JStr ''page''" and body: "\<not> nullish pageEnvelope"
    by (simp_all add: pageEnvelope_def)
  have render: "webhookProcess pageEnvelope logged
                  = (Http 400 (JObj [(''error'', JStr ''Invalid webhook format'')]), logged)"
    by (rule webhook_process_rejects_other_envelopes[OF body]) (simp add: page)
  have processor:
    "fst (processWebhook ''s3cret'' (Some ''Bearer s3cret'') pageEnvelope logged)
       = Http 200 (JObj [(''success'', JBool True), (''message'', JStr ''Webhook processed successfully'')])
     \<and> map (\<lambda>l. wl_processed (snd l)) (webhook_logs logged) = [False]
     \<and> map (\<lambda>l. (wl_processed (snd l), processorResponse (snd l)))
          (webhook_logs (snd (processWebhook ''s3cret'' (Some ''Bearer s3cret'') pageEnvelope logged)))
         = [(True, Some ''Processing started'')]"
    by (simp add: processWebhook_def pageEnvelope_def logged_def shop_def Let_def split_def
          dateNow_def optGet_def fieldMatches_def)
  show ?thesis using page render processor by blast
qed

end
